theory Spec2Isabelle
  imports Complex_Main "HOL-Library.AList"
begin

section \<open>Python values\<close>

text \<open>
  The values that \<^verbatim>\<open>setup_dynamo.py\<close> handles are what \<^verbatim>\<open>json.load\<close> produces
  (None, bool, int, float, str, list, dict with string keys) and, for the fallback
  branch of \<^verbatim>\<open>conv\<close>, objects of any other class. A dict is an association list in
  insertion order. The type \<open>'f\<close> stands for Python's floats and \<open>'o\<close> for objects of
  other classes; an object of another class is taken to support \<^verbatim>\<open>str\<close> and
  \<^verbatim>\<open>repr\<close> only (it is not iterable, has no \<^verbatim>\<open>items\<close>, does not convert to float and
  is truthy, as a plain \<^verbatim>\<open>object()\<close>).
\<close>

datatype ('f, 'o) pyval =
    PNone
  | PBool bool
  | PInt int
  | PFloat 'f
  | PStr string
  | PList "('f, 'o) pyval list"
  | PDict "(string \<times> ('f, 'o) pyval) list"
  | POther 'o

datatype py_error = TypeError | AttributeError | ValueError | OverflowError | ClientError string

text \<open>
  The builtins of Python that the program calls on floats, on strings inside a
  \<^verbatim>\<open>repr\<close> and on objects of other classes are parameters of the model:
  \<^verbatim>\<open>str(x)\<close> and \<^verbatim>\<open>float(s)\<close>, \<^verbatim>\<open>float(n)\<close>, \<^verbatim>\<open>bool(x)\<close> for a float, \<^verbatim>\<open>repr(s)\<close> for a
  str. \<open>None\<close> is the exception that the builtin raises (ValueError for
  \<^verbatim>\<open>float(s)\<close>, OverflowError for \<^verbatim>\<open>float(n)\<close>).
\<close>

record ('f, 'o) builtins =
  float_str :: "'f \<Rightarrow> string"
  float_of_str :: "string \<Rightarrow> 'f option"
  float_of_int :: "int \<Rightarrow> 'f option"
  float_bool :: "'f \<Rightarrow> bool"
  str_repr :: "string \<Rightarrow> string"
  other_str :: "'o \<Rightarrow> string"
  other_repr :: "'o \<Rightarrow> string"

subsection \<open>Integers and their decimal text\<close>

definition is_ascii_digit :: "char \<Rightarrow> bool" where
  "is_ascii_digit c = (48 \<le> (of_char c :: nat) \<and> (of_char c :: nat) \<le> 57)"

text \<open>
  \<^verbatim>\<open>str.isdigit\<close>: true when the string is not empty and every character is a digit.
  Among the code points below 256, Python counts the superscripts two, three and one
  (0xB2, 0xB3, 0xB9) as digits too; \<^verbatim>\<open>int\<close> does not read them.
\<close>

definition isdigit_char :: "char \<Rightarrow> bool" where
  "isdigit_char c = (is_ascii_digit c \<or> (of_char c :: nat) \<in> {178, 179, 185})"

definition isdigit :: "string \<Rightarrow> bool" where
  "isdigit s = (s \<noteq> [] \<and> list_all isdigit_char s)"

definition startswith_minus :: "string \<Rightarrow> bool" where
  "startswith_minus s = (take 1 s = ''-'')"

definition digit_char :: "nat \<Rightarrow> char" where
  "digit_char d = char_of (48 + d)"

fun digits_of_nat :: "nat \<Rightarrow> string" where
  "digits_of_nat n = (if n < 10 then [digit_char n] else digits_of_nat (n div 10) @ [digit_char (n mod 10)])"

declare digits_of_nat.simps [simp del]

text \<open>
  \<^verbatim>\<open>str(n)\<close> for an int. Ints are unbounded; the limit that recent Python versions put
  on the number of digits of an int's text is not modelled.
\<close>

definition str_of_int :: "int \<Rightarrow> string" where
  "str_of_int i = (if i < 0 then CHR ''-'' # digits_of_nat (nat (- i)) else digits_of_nat (nat i))"

definition nat_of_digits :: "string \<Rightarrow> nat" where
  "nat_of_digits s = foldl (\<lambda>a c. 10 * a + (of_char c - 48)) 0 s"

text \<open>
  \<^verbatim>\<open>int(s)\<close> on the texts the program passes to it: an optional minus sign followed by
  characters that \<^verbatim>\<open>isdigit\<close> accepts. It raises ValueError unless the digits are
  decimal digits.
\<close>

definition int_of_str :: "string \<Rightarrow> py_error + int" where
  "int_of_str s =
     (let body = (if startswith_minus s then drop 1 s else s) in
      if body \<noteq> [] \<and> list_all is_ascii_digit body
      then Inr (if startswith_minus s then - int (nat_of_digits body) else int (nat_of_digits body))
      else Inl ValueError)"

subsection \<open>\<^verbatim>\<open>isinstance\<close>, \<^verbatim>\<open>bool\<close>, \<^verbatim>\<open>float\<close>, \<^verbatim>\<open>repr\<close> and \<^verbatim>\<open>str\<close>\<close>

text \<open>In Python \<^verbatim>\<open>bool\<close> is a subclass of \<^verbatim>\<open>int\<close>: \<^verbatim>\<open>isinstance(True, int)\<close> holds.\<close>

fun isinstance_bool :: "('f, 'o) pyval \<Rightarrow> bool" where
  "isinstance_bool (PBool b) = True"
| "isinstance_bool v = False"

fun isinstance_int :: "('f, 'o) pyval \<Rightarrow> bool" where
  "isinstance_int (PInt n) = True"
| "isinstance_int (PBool b) = True"
| "isinstance_int v = False"

fun isinstance_float :: "('f, 'o) pyval \<Rightarrow> bool" where
  "isinstance_float (PFloat x) = True"
| "isinstance_float v = False"

fun isinstance_str :: "('f, 'o) pyval \<Rightarrow> bool" where
  "isinstance_str (PStr s) = True"
| "isinstance_str v = False"

fun py_bool :: "('f, 'o, 'z) builtins_scheme \<Rightarrow> ('f, 'o) pyval \<Rightarrow> bool" where
  "py_bool B PNone = False"
| "py_bool B (PBool b) = b"
| "py_bool B (PInt n) = (n \<noteq> 0)"
| "py_bool B (PFloat x) = float_bool B x"
| "py_bool B (PStr s) = (s \<noteq> [])"
| "py_bool B (PList xs) = (xs \<noteq> [])"
| "py_bool B (PDict kvs) = (kvs \<noteq> [])"
| "py_bool B (POther a) = True"

fun py_float :: "('f, 'o, 'z) builtins_scheme \<Rightarrow> ('f, 'o) pyval \<Rightarrow> py_error + ('f, 'o) pyval" where
  "py_float B (PBool b) =
     (case float_of_int B (if b then 1 else 0) of None \<Rightarrow> Inl OverflowError | Some x \<Rightarrow> Inr (PFloat x))"
| "py_float B (PInt n) =
     (case float_of_int B n of None \<Rightarrow> Inl OverflowError | Some x \<Rightarrow> Inr (PFloat x))"
| "py_float B (PFloat x) = Inr (PFloat x)"
| "py_float B (PStr s) =
     (case float_of_str B s of None \<Rightarrow> Inl ValueError | Some x \<Rightarrow> Inr (PFloat x))"
| "py_float B v = Inl TypeError"

fun py_join :: "string \<Rightarrow> string list \<Rightarrow> string" where
  "py_join sep [] = []"
| "py_join sep [s] = s"
| "py_join sep (s # t # ss) = s @ sep @ py_join sep (t # ss)"

fun py_repr :: "('f, 'o, 'z) builtins_scheme \<Rightarrow> ('f, 'o) pyval \<Rightarrow> string" where
  "py_repr B PNone = ''None''"
| "py_repr B (PBool b) = (if b then ''True'' else ''False'')"
| "py_repr B (PInt n) = str_of_int n"
| "py_repr B (PFloat x) = float_str B x"
| "py_repr B (PStr s) = str_repr B s"
| "py_repr B (PList xs) = ''['' @ py_join '', '' (map (py_repr B) xs) @ '']''"
| "py_repr B (PDict kvs) =
     ''{'' @ py_join '', '' (map (\<lambda>(k, x). str_repr B k @ '': '' @ py_repr B x) kvs) @ ''}''"
| "py_repr B (POther a) = other_repr B a"

fun py_str :: "('f, 'o, 'z) builtins_scheme \<Rightarrow> ('f, 'o) pyval \<Rightarrow> string" where
  "py_str B (PStr s) = s"
| "py_str B (POther a) = other_str B a"
| "py_str B v = py_repr B v"

section \<open>JSON normalization (Dynamo-style to plain dict)\<close>

text \<open>
  A comprehension evaluates its elements in order and stops at the first exception.
\<close>

fun map_res :: "('a \<Rightarrow> 'e + 'b) \<Rightarrow> 'a list \<Rightarrow> 'e + 'b list" where
  "map_res f [] = Inr []"
| "map_res f (x # xs) =
     (case f x of
        Inl e \<Rightarrow> Inl e
      | Inr y \<Rightarrow> (case map_res f xs of Inl e \<Rightarrow> Inl e | Inr ys \<Rightarrow> Inr (y # ys)))"

lemma map_res_cong [fundef_cong]:
  "xs = ys \<Longrightarrow> (\<And>x. x \<in> set ys \<Longrightarrow> f x = g x) \<Longrightarrow> map_res f xs = map_res g ys"
  by (induction ys arbitrary: xs) (auto split: sum.splits)

text \<open>
  \<^verbatim>\<open>for x in v\<close>: a list yields its elements, a str its characters, a dict its keys;
  any other value raises TypeError.
\<close>

fun py_iter :: "('f, 'o) pyval \<Rightarrow> py_error + ('f, 'o) pyval list" where
  "py_iter (PList xs) = Inr xs"
| "py_iter (PStr s) = Inr (map (\<lambda>c. PStr [c]) s)"
| "py_iter (PDict kvs) = Inr (map (\<lambda>(k, x). PStr k) kvs)"
| "py_iter v = Inl TypeError"

lemma size_list_member: "x \<in> set xs \<Longrightarrow> f x \<le> size_list f xs"
  by (induction xs) auto

lemma py_iter_size:
  assumes "py_iter v = Inr xs" and "x \<in> set xs"
  shows "size x \<le> size v"
proof (cases v)
  case (PList ys)
  with assms have "x \<in> set ys" by simp
  then have "size x \<le> size_list size ys" by (rule size_list_member)
  with PList show ?thesis by simp
qed (use assms in auto)

text \<open>
  The body of the \<^verbatim>\<open>try\<close> in the \<^verbatim>\<open>"N"\<close> branch of \<^verbatim>\<open>_from_ddb_attr\<close>: \<^verbatim>\<open>int(v)\<close> when the
  payload is a str with \<^verbatim>\<open>v.isdigit() or (v.startswith('-') and v[1:].isdigit())\<close>, else
  \<^verbatim>\<open>float(v)\<close>.
\<close>

definition is_int_text :: "string \<Rightarrow> bool" where
  "is_int_text s = (isdigit s \<or> (startswith_minus s \<and> isdigit (drop 1 s)))"

definition number_of :: "('f, 'o, 'z) builtins_scheme \<Rightarrow> ('f, 'o) pyval \<Rightarrow> py_error + ('f, 'o) pyval" where
  "number_of B v =
     (case v of
        PStr s \<Rightarrow>
          if is_int_text s
          then (case int_of_str s of Inl e \<Rightarrow> Inl e | Inr n \<Rightarrow> Inr (PInt n))
          else py_float B v
      | _ \<Rightarrow> py_float B v)"

function (sequential) from_ddb_attr ::
  "('f, 'o, 'z) builtins_scheme \<Rightarrow> ('f, 'o) pyval \<Rightarrow> py_error + ('f, 'o) pyval" where
  "from_ddb_attr B (PDict [(t, v)]) =
     (if t = ''S'' then Inr v
      else if t = ''N'' then (case number_of B v of Inl e \<Rightarrow> Inr v | Inr r \<Rightarrow> Inr r)
      else if t = ''BOOL'' then Inr (PBool (py_bool B v))
      else if t = ''NULL'' then Inr PNone
      else if t = ''L'' then
        (case py_iter v of
           Inl e \<Rightarrow> Inl e
         | Inr xs \<Rightarrow>
             (case map_res (from_ddb_attr B) xs of Inl e \<Rightarrow> Inl e | Inr ys \<Rightarrow> Inr (PList ys)))
      else if t = ''M'' then
        (case v of
           PDict kvs \<Rightarrow>
             (case map_res (\<lambda>(k, x). case from_ddb_attr B x of Inl e \<Rightarrow> Inl e | Inr y \<Rightarrow> Inr (k, y)) kvs of
                Inl e \<Rightarrow> Inl e
              | Inr r \<Rightarrow> Inr (PDict r))
         | _ \<Rightarrow> Inl AttributeError)
      else Inr v)"
| "from_ddb_attr B attr = Inr attr"
  by pat_completeness auto
termination
proof (relation "measure (\<lambda>(B, v). size v)")
  show "wf (measure (\<lambda>(B :: ('f, 'o, 'z) builtins_scheme, v :: ('f, 'o) pyval). size v))" by simp
next
  fix B :: "('f, 'o, 'z) builtins_scheme" and t :: string and v :: "('f, 'o) pyval" and xs x
  assume "py_iter v = Inr xs" "x \<in> set xs"
  then show "((B, x), (B, PDict [(t, v)])) \<in> measure (\<lambda>(B, v). size v)"
    using py_iter_size [of v xs x] by simp
next
  fix B :: "('f, 'o, 'z) builtins_scheme" and t :: string and v :: "('f, 'o) pyval" and kvs kx k x
  assume "v = PDict kvs" "kx \<in> set kvs" "(k, x) = kx"
  then have "(k, x) \<in> set kvs" by simp
  then have "size_prod (\<lambda>_. 0) size (k, x) \<le> size_list (size_prod (\<lambda>_. 0) size) kvs"
    by (rule size_list_member)
  with \<open>v = PDict kvs\<close> show "((B, x), (B, PDict [(t, v)])) \<in> measure (\<lambda>(B, v). size v)"
    by simp
qed

text \<open>
  The test of \<^verbatim>\<open>normalize_record\<close> on one attribute value:
  \<^verbatim>\<open>isinstance(v, dict) and len(v) == 1 and next(iter(v)) in ("S", "N", "BOOL", "L", "M", "NULL")\<close>.
\<close>

definition ddb_tags :: "string list" where
  "ddb_tags = [''S'', ''N'', ''BOOL'', ''L'', ''M'', ''NULL'']"

fun is_ddb_attr :: "('f, 'o) pyval \<Rightarrow> bool" where
  "is_ddb_attr (PDict kvs) = (length kvs = 1 \<and> fst (hd kvs) \<in> set ddb_tags)"
| "is_ddb_attr v = False"

definition normalize_record ::
  "('f, 'o, 'z) builtins_scheme \<Rightarrow> (string \<times> ('f, 'o) pyval) list \<Rightarrow> py_error + (string \<times> ('f, 'o) pyval) list" where
  "normalize_record B obj =
     (if list_ex is_ddb_attr (map snd obj)
      then map_res (\<lambda>(k, v). case from_ddb_attr B v of Inl e \<Rightarrow> Inl e | Inr y \<Rightarrow> Inr (k, y)) obj
      else Inr obj)"

section \<open>DDB write helpers\<close>

function conv :: "('f, 'o, 'z) builtins_scheme \<Rightarrow> ('f, 'o) pyval \<Rightarrow> ('f, 'o) pyval" where
  "conv B v =
     (if v = PNone then PDict [(''NULL'', PBool True)]
      else if isinstance_bool v then PDict [(''BOOL'', v)]
      else if (isinstance_int v \<or> isinstance_float v) \<and> \<not> isinstance_bool v
        then PDict [(''N'', PStr (py_str B v))]
      else if isinstance_str v then PDict [(''S'', v)]
      else (case v of
              PList xs \<Rightarrow> PDict [(''L'', PList (map (conv B) xs))]
            | PDict kvs \<Rightarrow> PDict [(''M'', PDict (map (\<lambda>(k, x). (k, conv B x)) kvs))]
            | _ \<Rightarrow> PDict [(''S'', PStr (py_str B v))]))"
  by pat_completeness auto
termination
proof (relation "measure (\<lambda>(B, v). size v)")
  show "wf (measure (\<lambda>(B :: ('f, 'o, 'z) builtins_scheme, v :: ('f, 'o) pyval). size v))" by simp
next
  fix B :: "('f, 'o, 'z) builtins_scheme" and v :: "('f, 'o) pyval" and xs x
  assume "v = PList xs" "x \<in> set xs"
  then show "((B, x), (B, v)) \<in> measure (\<lambda>(B, v). size v)"
    using size_list_member [of x xs size] by simp
next
  fix B :: "('f, 'o, 'z) builtins_scheme" and v :: "('f, 'o) pyval" and kvs kx k x
  assume "v = PDict kvs" "kx \<in> set kvs" "(k, x) = kx"
  then have "(k, x) \<in> set kvs" by simp
  then have "size_prod (\<lambda>_. 0) size (k, x) \<le> size_list (size_prod (\<lambda>_. 0) size) kvs"
    by (rule size_list_member)
  with \<open>v = PDict kvs\<close> show "((B, x), (B, v)) \<in> measure (\<lambda>(B, v). size v)"
    by simp
qed

declare conv.simps [simp del]

definition to_ddb_item ::
  "('f, 'o, 'z) builtins_scheme \<Rightarrow> (string \<times> ('f, 'o) pyval) list \<Rightarrow> (string \<times> ('f, 'o) pyval) list" where
  "to_ddb_item B d = map (\<lambda>(k, v). (k, conv B v)) d"


subsection \<open>\<^verbatim>\<open>batch_write_items\<close>\<close>

text \<open>
  \<^verbatim>\<open>range(start, stop, step)\<close> for a positive step, and the chunks
  \<^verbatim>\<open>[records[i : i + batch_size] for i in range(0, len(records), batch_size)]\<close>.
  \<^verbatim>\<open>range\<close> raises ValueError for step 0 and is empty for a negative step.
\<close>

function py_range :: "nat \<Rightarrow> nat \<Rightarrow> nat \<Rightarrow> nat list" where
  "py_range i n step = (if step = 0 \<or> n \<le> i then [] else i # py_range (i + step) n step)"
  by pat_completeness auto
termination
  by (relation "measure (\<lambda>(i, n, step). n - i)") auto

declare py_range.simps [simp del]

definition chunks_of :: "'a list \<Rightarrow> int \<Rightarrow> py_error + 'a list list" where
  "chunks_of records batch_size =
     (if batch_size = 0 then Inl ValueError
      else if batch_size < 0 then Inr []
      else Inr (map (\<lambda>i. take (nat batch_size) (drop i records))
                  (py_range 0 (length records) (nat batch_size))))"

text \<open>
  What \<^verbatim>\<open>batch_write_items\<close> does to the outside: calls of
  \<^verbatim>\<open>dynamodb.batch_write_item\<close> with their \<^verbatim>\<open>RequestItems\<close>, \<^verbatim>\<open>warn\<close> (count and
  attempt number), \<^verbatim>\<open>time.sleep\<close> and \<^verbatim>\<open>info\<close> (batch number, number of batches,
  size of the chunk). The backoff is a rational: doubling a float is exact, so the
  delays are those of the source up to the rounding of the literal 0.2.
\<close>

type_synonym ('f, 'o) request_items = "(string \<times> ('f, 'o) pyval list) list"

datatype ('f, 'o) event =
    BatchWriteItem "('f, 'o) request_items"
  | Warn nat nat
  | Sleep rat
  | Info nat nat nat

text \<open>
  The client is a function of its state and the request: it raises, or returns the
  response's \<^verbatim>\<open>"UnprocessedItems"\<close> (\<open>None\<close> when the key is absent) and its new state.
\<close>

type_synonym ('f, 'o, 's) client =
  "'s \<Rightarrow> ('f, 'o) request_items \<Rightarrow> py_error + (('f, 'o) request_items option \<times> 's)"

definition unprocessed_count :: "('f, 'o) request_items \<Rightarrow> nat" where
  "unprocessed_count unprocessed = sum_list (map (\<lambda>(t, v). length v) unprocessed)"

text \<open>
  The loop \<^verbatim>\<open>for attempt in range(max_retries)\<close>, by the number of attempts left.
\<close>

fun retry_loop ::
  "('f, 'o, 's) client \<Rightarrow> nat \<Rightarrow> nat \<Rightarrow> rat \<Rightarrow> ('f, 'o) request_items \<Rightarrow> 's
    \<Rightarrow> ('f, 'o) event list \<times> py_error option \<times> 's" where
  "retry_loop dynamodb 0 attempt backoff request_items st = ([], None, st)"
| "retry_loop dynamodb (Suc left) attempt backoff request_items st =
     (case dynamodb st request_items of
        Inl e \<Rightarrow> ([BatchWriteItem request_items], Some e, st)
      | Inr (resp, st') \<Rightarrow>
          (let unprocessed = (case resp of None \<Rightarrow> [] | Some u \<Rightarrow> u);
               count = unprocessed_count unprocessed
           in if count = 0 then ([BatchWriteItem request_items], None, st')
              else (case retry_loop dynamodb left (attempt + 1) (min (backoff * 2) 5) unprocessed st' of
                      (evs, r) \<Rightarrow>
                        (BatchWriteItem request_items # Warn count (attempt + 1) # Sleep backoff # evs, r))))"

definition put_request :: "('f, 'o, 'z) builtins_scheme \<Rightarrow> (string \<times> ('f, 'o) pyval) list \<Rightarrow> ('f, 'o) pyval" where
  "put_request B rec = PDict [(''PutRequest'', PDict [(''Item'', PDict (to_ddb_item B rec))])]"

fun write_chunks ::
  "('f, 'o, 'z) builtins_scheme \<Rightarrow> ('f, 'o, 's) client \<Rightarrow> string \<Rightarrow> int \<Rightarrow> nat \<Rightarrow> nat
    \<Rightarrow> (string \<times> ('f, 'o) pyval) list list list \<Rightarrow> 's \<Rightarrow> ('f, 'o) event list \<times> py_error option \<times> 's" where
  "write_chunks B dynamodb table_name max_retries n_chunks i [] st = ([], None, st)"
| "write_chunks B dynamodb table_name max_retries n_chunks i (chunk # rest) st =
     (case retry_loop dynamodb (nat max_retries) 0 (1 / 5) [(table_name, map (put_request B) chunk)] st of
        (evs, Some e, st') \<Rightarrow> (evs, Some e, st')
      | (evs, None, st') \<Rightarrow>
          (case write_chunks B dynamodb table_name max_retries n_chunks (i + 1) rest st' of
             (evs', r) \<Rightarrow> (evs @ Info i n_chunks (length chunk) # evs', r)))"

definition batch_write_items ::
  "('f, 'o, 'z) builtins_scheme \<Rightarrow> ('f, 'o, 's) client \<Rightarrow> string \<Rightarrow> (string \<times> ('f, 'o) pyval) list list
    \<Rightarrow> int \<Rightarrow> int \<Rightarrow> 's \<Rightarrow> ('f, 'o) event list \<times> py_error option \<times> 's" where
  "batch_write_items B dynamodb table_name records batch_size max_retries st =
     (case chunks_of records batch_size of
        Inl e \<Rightarrow> ([], Some e, st)
      | Inr chunks \<Rightarrow> write_chunks B dynamodb table_name max_retries (length chunks) 1 chunks st)"

text \<open>
  Two kinds of client for the claims: one whose every response leaves nothing
  unprocessed, and one whose every response returns the whole request as unprocessed.
\<close>

definition all_processed :: "('f, 'o, 's) client \<Rightarrow> bool" where
  "all_processed dynamodb =
     (\<forall>st req. \<exists>u st'. dynamodb st req = Inr (u, st')
                        \<and> unprocessed_count (case u of None \<Rightarrow> [] | Some x \<Rightarrow> x) = 0)"

definition none_processed :: "('f, 'o, 's) client \<Rightarrow> bool" where
  "none_processed dynamodb = (\<forall>st req. \<exists>st'. dynamodb st req = Inr (Some req, st'))"

text \<open>
  The requests of the \<^verbatim>\<open>batch_write_item\<close> calls and the durations of the
  \<^verbatim>\<open>time.sleep\<close> calls among the events, in order; and the update
  \<^verbatim>\<open>backoff = min(backoff * 2, 5)\<close>.
\<close>

definition calls :: "('f, 'o) event list \<Rightarrow> ('f, 'o) request_items list" where
  "calls evs = concat (map (\<lambda>e. case e of BatchWriteItem r \<Rightarrow> [r] | _ \<Rightarrow> []) evs)"

definition sleeps :: "('f, 'o) event list \<Rightarrow> rat list" where
  "sleeps evs = concat (map (\<lambda>e. case e of Sleep d \<Rightarrow> [d] | _ \<Rightarrow> []) evs)"

definition next_backoff :: "rat \<Rightarrow> rat" where
  "next_backoff backoff = min (backoff * 2) 5"

section \<open>Main: the import of a JSON list\<close>

text \<open>
  The records that \<^verbatim>\<open>main\<close> hands to \<^verbatim>\<open>batch_write_items\<close>: those with the key
  \<^verbatim>\<open>"summarize_job_name"\<close>, each with \<^verbatim>\<open>r["patient_id"] = str(r["patient_id"])\<close> when
  the key is present and its value is not a str.
\<close>

definition has_pk :: "(string \<times> ('f, 'o) pyval) list \<Rightarrow> bool" where
  "has_pk r = (''summarize_job_name'' \<in> set (map fst r))"

definition coerce_patient_id ::
  "('f, 'o, 'z) builtins_scheme \<Rightarrow> (string \<times> ('f, 'o) pyval) list \<Rightarrow> (string \<times> ('f, 'o) pyval) list" where
  "coerce_patient_id B r =
     (case map_of r ''patient_id'' of
        None \<Rightarrow> r
      | Some v \<Rightarrow>
          if \<not> isinstance_str v then AList.update ''patient_id'' (PStr (py_str B v)) r else r)"

definition prepare_records ::
  "('f, 'o, 'z) builtins_scheme \<Rightarrow> (string \<times> ('f, 'o) pyval) list list \<Rightarrow> (string \<times> ('f, 'o) pyval) list list" where
  "prepare_records B records = map (coerce_patient_id B) (filter has_pk records)"

section \<open>An instance of the builtins\<close>

text \<open>
  For running the model on concrete inputs: the floats are the halves \<open>k / 2\<close> of
  integers, written by their numerator \<open>k\<close>. Python prints such a float (of moderate
  size) as its integer part, a point and \<open>0\<close> or \<open>5\<close>, and reads that text back; the
  instance reads no other text. A str without quotes or backslashes has its \<^verbatim>\<open>repr\<close>
  in single quotes.
\<close>

definition half_str :: "int \<Rightarrow> string" where
  "half_str k =
     (if k < 0 then ''-'' else []) @ digits_of_nat (nat \<bar>k\<bar> div 2) @ (if even k then ''.0'' else ''.5'')"

definition half_of_str :: "string \<Rightarrow> int option" where
  "half_of_str s =
     (let body = (if startswith_minus s then drop 1 s else s);
          ds = takeWhile is_ascii_digit body;
          frac = dropWhile is_ascii_digit body;
          k = 2 * int (nat_of_digits ds) + (if frac = ''.5'' then 1 else 0)
      in if ds \<noteq> [] \<and> (frac = ''.0'' \<or> frac = ''.5'')
         then Some (if startswith_minus s then - k else k)
         else None)"

definition halves :: "(int, unit) builtins" where
  "halves =
     \<lparr> float_str = half_str,
       float_of_str = half_of_str,
       float_of_int = (\<lambda>n. Some (2 * n)),
       float_bool = (\<lambda>k. k \<noteq> 0),
       str_repr = (\<lambda>s. [CHR 0x27] @ s @ [CHR 0x27]),
       other_str = (\<lambda>_. ''<object>''),
       other_repr = (\<lambda>_. ''<object>'') \<rparr>"

section \<open>Decimal text of integers\<close>















section \<open>The cases of \<^verbatim>\<open>conv\<close>\<close>











section \<open>Claims about the encoder\<close>



section \<open>Claims about the decoder of one attribute\<close>

lemma from_ddb_attr_N: 
  "from_ddb_attr B (PDict [(''N'', v)]) = (case number_of B v of Inl e \<Rightarrow> Inr v | Inr r \<Rightarrow> Inr r)"
  by simp

lemma from_ddb_attr_unknown_tag:
  "t \<notin> set ddb_tags \<Longrightarrow> from_ddb_attr B (PDict [(t, v)]) = Inr v"
  by (simp add: ddb_tags_def)

lemma from_ddb_attr_scalar_tag:
  assumes "t \<noteq> ''L''" and "t \<noteq> ''M''"
  shows "\<exists>r. from_ddb_attr B (PDict [(t, v)]) = Inr r"
  using assms by (simp split: sum.splits)

lemma eval_abc: "number_of halves (PStr ''abc'') = Inl ValueError"
  by code_simp


text \<open>
  Claim C5 as stated (an unrecognized single-key wrapper is returned as it is) fails:
  the last line of \<^verbatim>\<open>_from_ddb_attr\<close> is \<^verbatim>\<open>return v\<close>, the value under the key, so
  \<^verbatim>\<open>{"X": 5}\<close> decodes to \<^verbatim>\<open>5\<close> and not to \<^verbatim>\<open>{"X": 5}\<close>.
\<close>

theorem from_ddb_attr_wrapper_counterexample:
  "''X'' \<notin> set ddb_tags
   \<and> from_ddb_attr halves (PDict [(''X'', PInt 5)]) = Inr (PInt 5)
   \<and> from_ddb_attr halves (PDict [(''X'', PInt 5)]) \<noteq> Inr (PDict [(''X'', PInt 5)])"
  by (simp add: ddb_tags_def)

text \<open>
  An L wrapper whose payload cannot be iterated and an M wrapper whose payload has no
  \<^verbatim>\<open>items\<close> raise, and \<^verbatim>\<open>normalize_record\<close> with them.
\<close>

lemma from_ddb_attr_malformed_container:
  "from_ddb_attr B (PDict [(''L'', PNone)]) = Inl TypeError"
  "from_ddb_attr B (PDict [(''L'', PInt n)]) = Inl TypeError"
  "from_ddb_attr B (PDict [(''M'', PList xs)]) = Inl AttributeError"
  "from_ddb_attr B (PDict [(''M'', PStr s)]) = Inl AttributeError"
  "normalize_record B [(k, PDict [(''L'', PInt n)])] = Inl TypeError"
  by (simp_all add: normalize_record_def ddb_tags_def)

text \<open>
  Claim C5, amended. For a single-key dict whose key is not one of the tags S, N,
  BOOL, L, M, NULL, \<^verbatim>\<open>_from_ddb_attr\<close> returns the value under that key (the payload,
  not the wrapper) and does not raise; an N wrapper whose payload does not parse
  returns its payload too; and no wrapper with a tag other than L and M raises.
\<close>

theorem from_ddb_attr_unrecognized_payload:
  "(t \<notin> set ddb_tags \<longrightarrow> from_ddb_attr B (PDict [(t, v)]) = Inr v)
   \<and> (number_of B w = Inl e \<longrightarrow> from_ddb_attr B (PDict [(''N'', w)]) = Inr w)
   \<and> (t \<noteq> ''L'' \<and> t \<noteq> ''M'' \<longrightarrow> (\<exists>r. from_ddb_attr B (PDict [(t, v)]) = Inr r))"
  using from_ddb_attr_unknown_tag [of t B v] from_ddb_attr_scalar_tag [of t B v]
  by (simp add: from_ddb_attr_N)

theorem from_ddb_attr_unrecognized_payload_witness:
  "''SS'' \<notin> set ddb_tags
   \<and> from_ddb_attr halves (PDict [(''SS'', PList [PStr ''a'', PStr ''b''])]) = Inr (PList [PStr ''a'', PStr ''b''])
   \<and> number_of halves (PStr ''abc'') = Inl ValueError
   \<and> from_ddb_attr halves (PDict [(''N'', PStr ''abc'')]) = Inr (PStr ''abc'')
   \<and> (\<exists>r. from_ddb_attr halves (PDict [(''SS'', PList [PStr ''a'', PStr ''b''])]) = Inr r)"
  using from_ddb_attr_unrecognized_payload
          [of "''SS''" halves "PList [PStr ''a'', PStr ''b'']" "PStr ''abc''" ValueError]
        eval_abc
  by (simp add: ddb_tags_def)



section \<open>Claims about \<^verbatim>\<open>normalize_record\<close> and the round trip\<close>



lemma map_res_values_Inr:
  "map_res (\<lambda>(k, v). case f v of Inl e \<Rightarrow> Inl e | Inr y \<Rightarrow> Inr (k, y)) kvs = Inr r
   \<longleftrightarrow> length r = length kvs
       \<and> (\<forall>i < length kvs. fst (r ! i) = fst (kvs ! i) \<and> f (snd (kvs ! i)) = Inr (snd (r ! i)))"
proof (induction kvs arbitrary: r)
  case Nil
  then show ?case by auto
next
  case (Cons kv kvs)
  obtain k v where kv: "kv = (k, v)" by (cases kv)
  show ?case
  proof (cases r)
    case Nil
    then show ?thesis by (auto simp: kv split: sum.splits)
  next
    case (Cons y ys)
    obtain k' v' where y: "y = (k', v')" by (cases y)
    have "map_res (\<lambda>(k, v). case f v of Inl e \<Rightarrow> Inl e | Inr y \<Rightarrow> Inr (k, y)) (kv # kvs) = Inr r
          \<longleftrightarrow> (k' = k \<and> f v = Inr v'
               \<and> map_res (\<lambda>(k, v). case f v of Inl e \<Rightarrow> Inl e | Inr y \<Rightarrow> Inr (k, y)) kvs = Inr ys)"
      by (auto simp: kv y Cons split: sum.splits)
    also have "\<dots> \<longleftrightarrow> (k' = k \<and> f v = Inr v' \<and> length ys = length kvs
               \<and> (\<forall>i < length kvs. fst (ys ! i) = fst (kvs ! i) \<and> f (snd (kvs ! i)) = Inr (snd (ys ! i))))"
      by (simp add: Cons.IH)
    also have "\<dots> \<longleftrightarrow> length r = length (kv # kvs)
               \<and> (\<forall>i < length (kv # kvs). fst (r ! i) = fst ((kv # kvs) ! i)
                      \<and> f (snd ((kv # kvs) ! i)) = Inr (snd (r ! i)))"
      by (auto simp: kv y Cons nth_Cons less_Suc_eq_0_disj split: nat.splits)
    finally show ?thesis .
  qed
qed

lemma map_res_values_Inl:
  "map_res (\<lambda>(k, v). case f v of Inl e \<Rightarrow> Inl e | Inr y \<Rightarrow> Inr (k, y)) kvs = Inl e
   \<Longrightarrow> \<exists>v \<in> snd ` set kvs. f v = Inl e"
  by (induction kvs) (auto split: sum.splits)

lemma map_res_values_total:
  "(\<And>v. v \<in> snd ` set kvs \<Longrightarrow> \<exists>y. f v = Inr y)
   \<Longrightarrow> \<exists>r. map_res (\<lambda>(k, v). case f v of Inl e \<Rightarrow> Inl e | Inr y \<Rightarrow> Inr (k, y)) kvs = Inr r"
proof (induction kvs)
  case Nil
  then show ?case by simp
next
  case (Cons kv kvs)
  obtain k v where kv: "kv = (k, v)" by (cases kv)
  from Cons.prems [of v] obtain y where y: "f v = Inr y" by (auto simp: kv)
  from Cons.IH Cons.prems obtain r where
    "map_res (\<lambda>(k, v). case f v of Inl e \<Rightarrow> Inl e | Inr y \<Rightarrow> Inr (k, y)) kvs = Inr r"
    by auto
  with y show ?case by (simp add: kv)
qed

lemma map_res_values_keys:
  "map_res (\<lambda>(k, v). case f v of Inl e \<Rightarrow> Inl e | Inr y \<Rightarrow> Inr (k, y)) kvs = Inr r
   \<Longrightarrow> map fst r = map fst kvs"
  by (induction kvs arbitrary: r) (auto split: sum.splits)

lemma is_ddb_attr_iff:
  "is_ddb_attr v \<longleftrightarrow> (\<exists>t w. v = PDict [(t, w)] \<and> t \<in> set ddb_tags)"
proof (cases v)
  case (PDict kvs)
  show ?thesis
  proof (cases kvs)
    case Nil
    with PDict show ?thesis by simp
  next
    case (Cons kv rest)
    with PDict show ?thesis by (cases kv; cases rest) auto
  qed
qed auto







lemma list_ex_is_ddb_attr_iff:
  "list_ex is_ddb_attr (map snd obj)
   \<longleftrightarrow> (\<exists>k t w. (k, PDict [(t, w)]) \<in> set obj \<and> t \<in> {''S'', ''N'', ''BOOL'', ''L'', ''M'', ''NULL''})"
proof -
  have "list_ex is_ddb_attr (map snd obj) \<longleftrightarrow> (\<exists>kv \<in> set obj. is_ddb_attr (snd kv))"
    by (simp add: list_ex_iff)
  also have "\<dots> \<longleftrightarrow> (\<exists>k v. (k, v) \<in> set obj \<and> is_ddb_attr v)"
    by force
  also have "\<dots> \<longleftrightarrow> (\<exists>k t w. (k, PDict [(t, w)]) \<in> set obj \<and> t \<in> set ddb_tags)"
    by (auto simp: is_ddb_attr_iff)
  finally show ?thesis by (simp add: ddb_tags_def)
qed

lemma eval_normalize_tagged:
  "normalize_record halves
     [(''a'', PDict [(''S'', PStr ''x'')]), (''b'', PInt 3), (''c'', PDict [(''N'', PStr ''4'')])]
   = Inr [(''a'', PStr ''x''), (''b'', PInt 3), (''c'', PInt 4)]"
  by code_simp

lemma eval_normalize_raises:
  "normalize_record halves [(''a'', PDict [(''S'', PStr ''x'')]), (''b'', PDict [(''L'', PInt 5)])]
   = Inl TypeError"
  by code_simp

text \<open>
  Claim C4 (tag-sniffing dispatch). When some attribute value of the record is a
  single-key dict whose key is one of S, N, BOOL, L, M, NULL, \<^verbatim>\<open>normalize_record\<close>
  decodes every attribute with \<^verbatim>\<open>_from_ddb_attr\<close>: it returns \<open>r\<close> exactly when \<open>r\<close> has
  the keys of the record in order and each value is the decoding of the value at that
  place, and it raises only what the decoding of some attribute raises. Otherwise it
  returns the record unchanged: on a plain record it is the identity.
\<close>

theorem normalize_record_dispatch:
  "((\<exists>k t w. (k, PDict [(t, w)]) \<in> set obj \<and> t \<in> {''S'', ''N'', ''BOOL'', ''L'', ''M'', ''NULL''}) \<longrightarrow>
      (\<forall>r. normalize_record B obj = Inr r \<longleftrightarrow>
            (length r = length obj
             \<and> (\<forall>i < length obj. fst (r ! i) = fst (obj ! i)
                                  \<and> from_ddb_attr B (snd (obj ! i)) = Inr (snd (r ! i)))))
      \<and> (\<forall>e. normalize_record B obj = Inl e \<longrightarrow> (\<exists>v \<in> snd ` set obj. from_ddb_attr B v = Inl e)))
   \<and> (\<not> (\<exists>k t w. (k, PDict [(t, w)]) \<in> set obj \<and> t \<in> {''S'', ''N'', ''BOOL'', ''L'', ''M'', ''NULL''}) \<longrightarrow>
        normalize_record B obj = Inr obj)"
proof (intro conjI impI allI)
  fix r
  assume "\<exists>k t w. (k, PDict [(t, w)]) \<in> set obj \<and> t \<in> {''S'', ''N'', ''BOOL'', ''L'', ''M'', ''NULL''}"
  then have "list_ex is_ddb_attr (map snd obj)" by (simp add: list_ex_is_ddb_attr_iff)
  then show "normalize_record B obj = Inr r \<longleftrightarrow>
            (length r = length obj
             \<and> (\<forall>i < length obj. fst (r ! i) = fst (obj ! i)
                                  \<and> from_ddb_attr B (snd (obj ! i)) = Inr (snd (r ! i))))"
    by (simp only: normalize_record_def if_True map_res_values_Inr)
next
  fix e
  assume "\<exists>k t w. (k, PDict [(t, w)]) \<in> set obj \<and> t \<in> {''S'', ''N'', ''BOOL'', ''L'', ''M'', ''NULL''}"
    and "normalize_record B obj = Inl e"
  then show "\<exists>v \<in> snd ` set obj. from_ddb_attr B v = Inl e"
    by (auto simp: normalize_record_def dest: map_res_values_Inl split: if_splits)
next
  assume "\<not> (\<exists>k t w. (k, PDict [(t, w)]) \<in> set obj \<and> t \<in> {''S'', ''N'', ''BOOL'', ''L'', ''M'', ''NULL''})"
  then have "\<not> list_ex is_ddb_attr (map snd obj)" by (simp add: list_ex_is_ddb_attr_iff)
  then show "normalize_record B obj = Inr obj" by (simp add: normalize_record_def)
qed

theorem normalize_record_dispatch_witness:
  "(\<exists>k t w. (k, PDict [(t, w)])
          \<in> set ([(''a'', PDict [(''S'', PStr ''x'')]), (''b'', PInt 3), (''c'', PDict [(''N'', PStr ''4'')])]
                   :: (string \<times> (int, unit) pyval) list)
        \<and> t \<in> {''S'', ''N'', ''BOOL'', ''L'', ''M'', ''NULL''})
   \<and> normalize_record halves
        [(''a'', PDict [(''S'', PStr ''x'')]), (''b'', PInt 3), (''c'', PDict [(''N'', PStr ''4'')])]
      = Inr [(''a'', PStr ''x''), (''b'', PInt 3), (''c'', PInt 4)]
   \<and> from_ddb_attr halves (PDict [(''N'', PStr ''4'')]) = Inr (PInt 4)
   \<and> \<not> (\<exists>k t w. (k, PDict [(t, w)])
          \<in> set ([(''a'', PStr ''x''), (''b'', PDict [(''k'', PInt 1), (''S'', PInt 2)]), (''c'', PDict [(''X'', PInt 2)])]
                   :: (string \<times> (int, unit) pyval) list)
        \<and> t \<in> {''S'', ''N'', ''BOOL'', ''L'', ''M'', ''NULL''})
   \<and> normalize_record halves
        [(''a'', PStr ''x''), (''b'', PDict [(''k'', PInt 1), (''S'', PInt 2)]), (''c'', PDict [(''X'', PInt 2)])]
      = Inr [(''a'', PStr ''x''), (''b'', PDict [(''k'', PInt 1), (''S'', PInt 2)]), (''c'', PDict [(''X'', PInt 2)])]"
proof -
  let ?obj = "[(''a'', PDict [(''S'', PStr ''x'')]), (''b'', PInt 3), (''c'', PDict [(''N'', PStr ''4'')])]
                :: (string \<times> (int, unit) pyval) list"
  let ?r = "[(''a'', PStr ''x''), (''b'', PInt 3), (''c'', PInt 4)] :: (string \<times> (int, unit) pyval) list"
  let ?plain = "[(''a'', PStr ''x''), (''b'', PDict [(''k'', PInt 1), (''S'', PInt 2)]), (''c'', PDict [(''X'', PInt 2)])]
                :: (string \<times> (int, unit) pyval) list"
  have tagged: "\<exists>k t w. (k, PDict [(t, w)]) \<in> set ?obj \<and> t \<in> {''S'', ''N'', ''BOOL'', ''L'', ''M'', ''NULL''}"
    by (rule exI [of _ "''a''"], rule exI [of _ "''S''"], rule exI [of _ "PStr ''x''"]) simp
  have plain: "\<not> (\<exists>k t w. (k, PDict [(t, w)]) \<in> set ?plain \<and> t \<in> {''S'', ''N'', ''BOOL'', ''L'', ''M'', ''NULL''})"
    by auto
  have n4: "from_ddb_attr halves (PDict [(''N'', PStr ''4'')]) = Inr (PInt 4)"
    by code_simp
  have rhs: "length ?r = length ?obj
       \<and> (\<forall>i < length ?obj. fst (?r ! i) = fst (?obj ! i)
                             \<and> from_ddb_attr halves (snd (?obj ! i)) = Inr (snd (?r ! i)))"
    using n4 by (simp add: All_less_Suc)
  from normalize_record_dispatch [of ?obj halves] tagged
  have iff: "normalize_record halves ?obj = Inr ?r \<longleftrightarrow>
      (length ?r = length ?obj
       \<and> (\<forall>i < length ?obj. fst (?r ! i) = fst (?obj ! i)
                             \<and> from_ddb_attr halves (snd (?obj ! i)) = Inr (snd (?r ! i))))"
    by blast
  from iff rhs have res: "normalize_record halves ?obj = Inr ?r" by (rule iffD2)
  from normalize_record_dispatch [of ?plain halves] plain
  have id: "normalize_record halves ?plain = Inr ?plain" by blast
  show ?thesis
    by (intro conjI) (rule tagged res n4 plain id)+
qed

text \<open>
  Claim C10 (key-set preservation). The record that \<^verbatim>\<open>normalize_record\<close> returns has
  exactly the keys of its input, in the same order, in the decoding branch and in the
  pass-through branch; it returns whenever the decoding of every attribute returns,
  and always on a record without a tagged attribute value.
\<close>

theorem normalize_record_keys:
  "(\<forall>r. normalize_record B obj = Inr r \<longrightarrow> map fst r = map fst obj)
   \<and> ((\<forall>v \<in> snd ` set obj. \<exists>y. from_ddb_attr B v = Inr y) \<longrightarrow> (\<exists>r. normalize_record B obj = Inr r))
   \<and> (\<not> list_ex is_ddb_attr (map snd obj) \<longrightarrow> normalize_record B obj = Inr obj)"
proof (intro conjI impI allI)
  fix r assume "normalize_record B obj = Inr r"
  then show "map fst r = map fst obj"
    by (auto simp: normalize_record_def dest: map_res_values_keys split: if_splits)
next
  assume "\<forall>v \<in> snd ` set obj. \<exists>y. from_ddb_attr B v = Inr y"
  then have "\<exists>r. map_res (\<lambda>(k, v). case from_ddb_attr B v of Inl e \<Rightarrow> Inl e | Inr y \<Rightarrow> Inr (k, y)) obj = Inr r"
    by (intro map_res_values_total) blast
  then show "\<exists>r. normalize_record B obj = Inr r"
    by (simp add: normalize_record_def)
next
  assume "\<not> list_ex is_ddb_attr (map snd obj)"
  then show "normalize_record B obj = Inr obj" by (simp add: normalize_record_def)
qed

theorem normalize_record_keys_witness:
  "normalize_record halves
      [(''a'', PDict [(''S'', PStr ''x'')]), (''b'', PInt 3), (''c'', PDict [(''N'', PStr ''4'')])]
     = Inr [(''a'', PStr ''x''), (''b'', PInt 3), (''c'', PInt 4)]
   \<and> map fst [(''a'', PStr ''x''), (''b'', PInt 3), (''c'', PInt (4 :: int))] = [''a'', ''b'', ''c'']
   \<and> (\<exists>r. normalize_record halves
              [(''a'', PDict [(''S'', PStr ''x'')]), (''b'', PInt 3), (''c'', PDict [(''N'', PStr ''4'')])]
            = Inr r \<and> map fst r = [''a'', ''b'', ''c''])
   \<and> \<not> list_ex is_ddb_attr
         (map snd ([(''a'', PStr ''x''), (''b'', PDict [(''X'', PInt 2)])] :: (string \<times> (int, unit) pyval) list))
   \<and> normalize_record halves [(''a'', PStr ''x''), (''b'', PDict [(''X'', PInt 2)])]
     = Inr [(''a'', PStr ''x''), (''b'', PDict [(''X'', PInt 2)])]"
proof -
  let ?obj = "[(''a'', PDict [(''S'', PStr ''x'')]), (''b'', PInt 3), (''c'', PDict [(''N'', PStr ''4'')])]
                :: (string \<times> (int, unit) pyval) list"
  let ?plain = "[(''a'', PStr ''x''), (''b'', PDict [(''X'', PInt 2)])] :: (string \<times> (int, unit) pyval) list"
  have n4: "from_ddb_attr halves (PDict [(''N'', PStr ''4'')]) = Inr (PInt 4)"
    by code_simp
  have dec: "\<forall>v \<in> snd ` set ?obj. \<exists>y. from_ddb_attr halves v = Inr y"
    using n4 by simp
  have plain: "\<not> list_ex is_ddb_attr (map snd ?plain)"
    by (simp add: ddb_tags_def)
  from normalize_record_keys [of halves ?obj] dec
  obtain r where r: "normalize_record halves ?obj = Inr r" by blast
  with normalize_record_keys [of halves ?obj] have keys: "map fst r = map fst ?obj" by blast
  from normalize_record_keys [of halves ?plain] plain
  have id: "normalize_record halves ?plain = Inr ?plain" by blast
  from r keys have ex: "\<exists>r. normalize_record halves ?obj = Inr r \<and> map fst r = [''a'', ''b'', ''c'']"
    by auto
  have m: "map fst [(''a'', PStr ''x''), (''b'', PInt 3), (''c'', PInt (4 :: int))] = [''a'', ''b'', ''c'']"
    by simp
  show ?thesis
    by (intro conjI) (rule eval_normalize_tagged m ex plain id)+
qed

section \<open>Claims about \<^verbatim>\<open>batch_write_items\<close>\<close>

lemma py_range_nth:
  "0 < c \<Longrightarrow> py_range i n c = map (\<lambda>j. i + j * c) [0..<(n - i + c - 1) div c]"
proof (induction i n c rule: py_range.induct)
  case (1 i n c)
  show ?case
  proof (cases "n \<le> i")
    case True
    with 1(2) show ?thesis by (subst py_range.simps) simp
  next
    case False
    with 1 have IH: "py_range (i + c) n c = map (\<lambda>j. i + c + j * c) [0..<(n - (i + c) + c - 1) div c]"
      by simp
    have len: "(n - i + c - 1) div c = Suc ((n - (i + c) + c - 1) div c)"
    proof (cases "i + c \<le> n")
      case True
      then have "n - i + c - 1 = (n - (i + c) + c - 1) + c" using 1(2) by simp
      moreover have "((n - (i + c) + c - 1) + c) div c = Suc ((n - (i + c) + c - 1) div c)"
        using 1(2) by (simp only: div_add_self2)
      ultimately show ?thesis by (simp only:)
    next
      case F: False
      with False 1(2) have "c \<le> n - i + c - 1" "n - i + c - 1 < 2 * c" by simp_all
      then have "(n - i + c - 1) div c = 1"
        by (metis One_nat_def Suc_1 div_nat_eqI mult.commute mult.right_neutral nat_mult_1_right mult_Suc_right)
      moreover from F have "(n - (i + c) + c - 1) div c = 0" using 1(2) by simp
      ultimately show ?thesis by simp
    qed
    have "py_range i n c = i # py_range (i + c) n c"
      using False 1(2) by (subst py_range.simps) simp
    also have "\<dots> = i # map (\<lambda>j. i + c + j * c) [0..<(n - (i + c) + c - 1) div c]"
      by (simp only: IH)
    also have "\<dots> = map (\<lambda>j. i + j * c) (0 # map Suc [0..<(n - (i + c) + c - 1) div c])"
      by (simp add: comp_def add.assoc)
    also have "0 # map Suc [0..<(n - (i + c) + c - 1) div c] = [0..<Suc ((n - (i + c) + c - 1) div c)]"
      by (simp add: upt_conv_Cons map_Suc_upt del: upt_Suc)
    finally show ?thesis by (simp only: len)
  qed
qed

lemma concat_chunks_drop:
  "0 < c \<Longrightarrow> concat (map (\<lambda>i. take c (drop i xs)) (py_range i (length xs) c)) = drop i xs"
proof (induction i "length xs" c rule: py_range.induct)
  case (1 i c)
  show ?case
  proof (cases "length xs \<le> i")
    case True
    then show ?thesis by (subst py_range.simps) simp
  next
    case False
    with 1 have "concat (map (\<lambda>i. take c (drop i xs)) (py_range (i + c) (length xs) c)) = drop (i + c) xs"
      by simp
    moreover have "take c (drop i xs) @ drop (i + c) xs = drop i xs"
      by (metis add.commute append_take_drop_id drop_drop)
    ultimately show ?thesis using False 1(2) by (subst py_range.simps) simp
  qed
qed

lemma ceil_div_index:
  assumes "0 < c" and "k < (n + c - 1) div c"
  shows "k * c < (n :: nat)"
proof -
  from assms(2) have "Suc k \<le> (n + c - 1) div c" by simp
  then have "Suc k * c \<le> ((n + c - 1) div c) * c" by (rule mult_le_mono1)
  also have "\<dots> \<le> n + c - 1" by simp
  finally have "k * c + c \<le> n + c - 1" by simp
  with assms(1) show ?thesis by simp
qed

lemma ceil_div_upper:
  assumes "0 < c"
  shows "(n :: nat) \<le> ((n + c - 1) div c) * c"
proof -
  have "n + c - 1 < ((n + c - 1) div c) * c + c"
    using assms by (metis add.commute div_mult_mod_eq add_less_cancel_left mod_less_divisor mult.commute)
  with assms show ?thesis by simp
qed

lemma ceil_div_ceiling:
  assumes "0 < c"
  shows "int ((n + c - 1) div c) = \<lceil>real n / real c\<rceil>"
proof (rule sym, rule ceiling_unique)
  let ?m = "(n + c - 1) div c"
  have "real n \<le> real (?m * c)"
    using ceil_div_upper [OF assms, of n] by (simp only: of_nat_le_iff)
  then show "real n / real c \<le> real_of_int (int ?m)"
    using assms by (simp add: field_simps)
next
  let ?m = "(n + c - 1) div c"
  show "real_of_int (int ?m) - 1 < real n / real c"
  proof (cases "?m = 0")
    case True
    have "(- 1 :: real) < 0" by simp
    also have "0 \<le> real n / real c" by simp
    finally show ?thesis using True by simp
  next
    case False
    then have "?m - 1 < ?m" by simp
    from ceil_div_index [OF assms this] have "real ((?m - 1) * c) < real n"
      by (simp only: of_nat_less_iff)
    moreover from False have "real (?m - 1) = real ?m - 1" by simp
    ultimately have "(real ?m - 1) * real c < real n" by simp
    then show ?thesis using assms by (simp add: field_simps)
  qed
qed

lemma chunks_of_pos:
  assumes "0 < C"
  shows "chunks_of xs C =
           Inr (map (\<lambda>k. take (nat C) (drop (k * nat C) xs)) [0..<(length xs + nat C - 1) div nat C])"
proof -
  from assms have c: "0 < nat C" by simp
  show ?thesis
    using assms by (simp add: chunks_of_def py_range_nth [OF c] comp_def)
qed

lemma retry_loop_all_processed:
  assumes "all_processed dynamodb" and "0 < m"
  shows "\<exists>st'. retry_loop dynamodb m a b req st = ([BatchWriteItem req], None, st')"
proof -
  from assms(2) obtain m' where m: "m = Suc m'" by (cases m) auto
  from assms(1) obtain u st' where
    "dynamodb st req = Inr (u, st')" "unprocessed_count (case u of None \<Rightarrow> [] | Some x \<Rightarrow> x) = 0"
    unfolding all_processed_def by blast
  then show ?thesis by (simp add: m)
qed

lemma write_chunks_all_processed:
  assumes "all_processed dynamodb" and "0 < max_retries"
  shows "\<exists>st'. write_chunks B dynamodb table_name max_retries n i chunks st =
           (concat (map (\<lambda>(j, chunk). [BatchWriteItem [(table_name, map (put_request B) chunk)],
                                         Info j n (length chunk)])
                        (zip [i..<i + length chunks] chunks)), None, st')"
proof (induction chunks arbitrary: i st)
  case Nil
  show ?case by simp
next
  case (Cons chunk rest)
  from assms(2) have "0 < nat max_retries" by simp
  from retry_loop_all_processed [OF assms(1) this]
  obtain st1 where r: "retry_loop dynamodb (nat max_retries) 0 (1 / 5)
                         [(table_name, map (put_request B) chunk)] st
                       = ([BatchWriteItem [(table_name, map (put_request B) chunk)]], None, st1)"
    by blast
  from Cons.IH [of "i + 1" st1] obtain st2 where
    w: "write_chunks B dynamodb table_name max_retries n (i + 1) rest st1 =
           (concat (map (\<lambda>(j, chunk). [BatchWriteItem [(table_name, map (put_request B) chunk)],
                                         Info j n (length chunk)])
                        (zip [i + 1..<i + 1 + length rest] rest)), None, st2)"
    by blast
  have "[i..<i + length (chunk # rest)] = i # [i + 1..<i + 1 + length rest]"
    by (subst upt_rec) simp
  with r w show ?case by simp
qed

lemma eval_chunks:
  "chunks_of [[(''summarize_job_name'', PStr ''a'')], [(''summarize_job_name'', PStr ''b'')],
              [(''summarize_job_name'', PStr ''c'')]] 2
   = Inr [[[(''summarize_job_name'', PStr ''a'')], [(''summarize_job_name'', PStr ''b'')]],
          [[(''summarize_job_name'', PStr ''c'')]] :: (string \<times> (int, unit) pyval) list list]"
  by code_simp

lemma eval_write_all_processed:
  "fst (batch_write_items halves (\<lambda>st req. Inr (None, Suc st)) ''t''
          [[(''summarize_job_name'', PStr ''a'')], [(''summarize_job_name'', PStr ''b'')],
           [(''summarize_job_name'', PStr ''c'')]] 2 5 (0 :: nat))
   = [BatchWriteItem [(''t'', [put_request halves [(''summarize_job_name'', PStr ''a'')],
                               put_request halves [(''summarize_job_name'', PStr ''b'')]])],
      Info 1 2 2,
      BatchWriteItem [(''t'', [put_request halves [(''summarize_job_name'', PStr ''c'')]])],
      Info 2 2 1]"
  by code_simp

lemma all_processed_accepting: "all_processed (\<lambda>st req. Inr (None, Suc st))"
  by (simp add: all_processed_def unprocessed_count_def)

text \<open>
  Claim C3 (chunking). For a chunk size \<open>C \<ge> 1\<close>, \<^verbatim>\<open>batch_write_items\<close> cuts the
  records into \<open>\<lceil>N / C\<rceil>\<close> chunks, none empty and none longer than \<open>C\<close>, all but the
  last of length \<open>C\<close>; chunk \<open>k\<close> is \<^verbatim>\<open>records[k * C : k * C + C]\<close>, and the chunks
  concatenated in order are the records. The chunks are written in that order: when
  the client processes every request, the calls are the encoded chunks one after the
  other. The bound \<open>C \<le> 25\<close> of the claim is not needed.
\<close>

theorem chunks_of_partition:
  assumes "1 \<le> C"
  shows "\<exists>chunks. chunks_of records C = Inr chunks
           \<and> int (length chunks) = \<lceil>real (length records) / real_of_int C\<rceil>
           \<and> (\<forall>c \<in> set chunks. 1 \<le> length c \<and> int (length c) \<le> C)
           \<and> (\<forall>k. Suc k < length chunks \<longrightarrow> int (length (chunks ! k)) = C)
           \<and> (\<forall>k < length chunks. chunks ! k = take (nat C) (drop (k * nat C) records))
           \<and> concat chunks = records
           \<and> batch_write_items B dynamodb table_name records C max_retries st
               = write_chunks B dynamodb table_name max_retries (length chunks) 1 chunks st
           \<and> (all_processed dynamodb \<and> 0 < max_retries \<longrightarrow>
                fst (batch_write_items B dynamodb table_name records C max_retries st)
                = concat (map (\<lambda>(j, chunk). [BatchWriteItem [(table_name, map (put_request B) chunk)],
                                              Info j (length chunks) (length chunk)])
                              (zip [1..<1 + length chunks] chunks)))"
proof -
  let ?c = "nat C"
  let ?n = "length records"
  let ?m = "(?n + ?c - 1) div ?c"
  let ?chunks = "map (\<lambda>k. take ?c (drop (k * ?c) records)) [0..<?m]"
  from assms have C: "0 < C" and c: "0 < ?c" by simp_all
  have eq: "chunks_of records C = Inr ?chunks" by (rule chunks_of_pos [OF C])
  have len: "length ?chunks = ?m" by simp
  have nth: "\<And>k. k < ?m \<Longrightarrow> ?chunks ! k = take ?c (drop (k * ?c) records)" by simp
  have ceil: "int (length ?chunks) = \<lceil>real ?n / real_of_int C\<rceil>"
    using ceil_div_ceiling [OF c, of ?n] C by simp
  have sizes: "\<forall>ch \<in> set ?chunks. 1 \<le> length ch \<and> int (length ch) \<le> C"
  proof
    fix ch assume "ch \<in> set ?chunks"
    then obtain k where k: "k < ?m" and ch: "ch = take ?c (drop (k * ?c) records)" by auto
    from ceil_div_index [OF c k] have "k * ?c < ?n" .
    with c ch C show "1 \<le> length ch \<and> int (length ch) \<le> C" by auto
  qed
  have full: "\<forall>k. Suc k < length ?chunks \<longrightarrow> int (length (?chunks ! k)) = C"
  proof (intro allI impI)
    fix k assume "Suc k < length ?chunks"
    then have sk: "Suc k < ?m" by simp
    from ceil_div_index [OF c sk] have "k * ?c + ?c < ?n" by simp
    then have "length (take ?c (drop (k * ?c) records)) = ?c" by simp
    moreover from sk have "k < ?m" by simp
    ultimately show "int (length (?chunks ! k)) = C" using C by (simp only: nth)
  qed
  have cat: "concat ?chunks = records"
    using concat_chunks_drop [OF c, of records 0] by (simp add: py_range_nth [OF c] comp_def)
  have bw: "batch_write_items B dynamodb table_name records C max_retries st
              = write_chunks B dynamodb table_name max_retries (length ?chunks) 1 ?chunks st"
    by (simp only: batch_write_items_def eq sum.case)
  have ok: "all_processed dynamodb \<and> 0 < max_retries \<longrightarrow>
              fst (batch_write_items B dynamodb table_name records C max_retries st)
              = concat (map (\<lambda>(j, chunk). [BatchWriteItem [(table_name, map (put_request B) chunk)],
                                            Info j (length ?chunks) (length chunk)])
                            (zip [1..<1 + length ?chunks] ?chunks))"
  proof
    assume a: "all_processed dynamodb \<and> 0 < max_retries"
    from write_chunks_all_processed [of dynamodb max_retries B table_name "length ?chunks" 1 ?chunks st] a
    obtain st' where "write_chunks B dynamodb table_name max_retries (length ?chunks) 1 ?chunks st =
           (concat (map (\<lambda>(j, chunk). [BatchWriteItem [(table_name, map (put_request B) chunk)],
                                         Info j (length ?chunks) (length chunk)])
                        (zip [1..<1 + length ?chunks] ?chunks)), None, st')"
      by blast
    then show "fst (batch_write_items B dynamodb table_name records C max_retries st)
              = concat (map (\<lambda>(j, chunk). [BatchWriteItem [(table_name, map (put_request B) chunk)],
                                            Info j (length ?chunks) (length chunk)])
                            (zip [1..<1 + length ?chunks] ?chunks))"
      by (simp only: bw fst_conv)
  qed
  have nth': "\<forall>k < length ?chunks. ?chunks ! k = take ?c (drop (k * ?c) records)" by simp
  from eq ceil sizes full nth' cat bw ok show ?thesis by blast
qed

theorem chunks_of_partition_witness:
  "(1 :: int) \<le> 2
   \<and> chunks_of [[(''summarize_job_name'', PStr ''a'')], [(''summarize_job_name'', PStr ''b'')],
                 [(''summarize_job_name'', PStr ''c'')]] 2
      = Inr [[[(''summarize_job_name'', PStr ''a'')], [(''summarize_job_name'', PStr ''b'')]],
             [[(''summarize_job_name'', PStr ''c'')]] :: (string \<times> (int, unit) pyval) list list]
   \<and> (2 :: int) = \<lceil>real (length [[(''summarize_job_name'', PStr ''a'')], [(''summarize_job_name'', PStr ''b'')],
                 [(''summarize_job_name'', PStr ''c'') :: string \<times> (int, unit) pyval]]) / real_of_int 2\<rceil>
   \<and> all_processed (\<lambda>(st :: nat) (req :: (int, unit) request_items). Inr (None, Suc st))
   \<and> fst (batch_write_items halves (\<lambda>st req. Inr (None, Suc st)) ''t''
          [[(''summarize_job_name'', PStr ''a'')], [(''summarize_job_name'', PStr ''b'')],
           [(''summarize_job_name'', PStr ''c'')]] 2 5 (0 :: nat))
      = [BatchWriteItem [(''t'', [put_request halves [(''summarize_job_name'', PStr ''a'')],
                                  put_request halves [(''summarize_job_name'', PStr ''b'')]])],
         Info 1 2 2,
         BatchWriteItem [(''t'', [put_request halves [(''summarize_job_name'', PStr ''c'')]])],
         Info 2 2 1]"
proof -
  let ?records = "[[(''summarize_job_name'', PStr ''a'')], [(''summarize_job_name'', PStr ''b'')],
                   [(''summarize_job_name'', PStr ''c'')]] :: (string \<times> (int, unit) pyval) list list"
  have one: "(1 :: int) \<le> 2" by simp
  from chunks_of_partition [OF one, of ?records halves "\<lambda>st req. Inr (None, Suc st)" "''t''" 5 "0 :: nat"]
  obtain chunks where
    c: "chunks_of ?records 2 = Inr chunks"
    and n: "int (length chunks) = \<lceil>real (length ?records) / real_of_int 2\<rceil>"
    by blast
  from c eval_chunks have "length chunks = 2" by auto
  with n have ceil: "(2 :: int) = \<lceil>real (length ?records) / real_of_int 2\<rceil>" by simp
  show ?thesis
    by (intro conjI) (rule one eval_chunks ceil all_processed_accepting eval_write_all_processed)+
qed

lemma upt_0_Suc_shift: "[0..<Suc n] = 0 # map Suc [0..<n]"
  by (simp add: upt_conv_Cons map_Suc_upt del: upt_Suc)

lemma sleeps_retry_loop:
  "\<exists>n \<le> m. sleeps (fst (retry_loop dynamodb m a b req st)) = map (\<lambda>k. (next_backoff ^^ k) b) [0..<n]"
proof (induction m arbitrary: a b req st)
  case 0
  show ?case by (simp add: sleeps_def)
next
  case (Suc m)
  show ?case
  proof (cases "dynamodb st req")
    case (Inl e)
    then have "sleeps (fst (retry_loop dynamodb (Suc m) a b req st)) = map (\<lambda>k. (next_backoff ^^ k) b) [0..<0]"
      by (simp add: sleeps_def)
    then show ?thesis by blast
  next
    case (Inr p)
    obtain resp st' where p: "p = (resp, st')" by (cases p)
    let ?u = "case resp of None \<Rightarrow> [] | Some u \<Rightarrow> u"
    show ?thesis
    proof (cases "unprocessed_count ?u = 0")
      case True
      with Inr p have "sleeps (fst (retry_loop dynamodb (Suc m) a b req st)) = map (\<lambda>k. (next_backoff ^^ k) b) [0..<0]"
        by (simp add: sleeps_def)
      then show ?thesis by blast
    next
      case False
      from Suc.IH [of "a + 1" "next_backoff b" ?u st'] obtain n where
        n: "n \<le> m" and
        s: "sleeps (fst (retry_loop dynamodb m (a + 1) (next_backoff b) ?u st'))
              = map (\<lambda>k. (next_backoff ^^ k) (next_backoff b)) [0..<n]"
        by blast
      from Inr p False have
        "sleeps (fst (retry_loop dynamodb (Suc m) a b req st))
           = b # sleeps (fst (retry_loop dynamodb m (a + 1) (next_backoff b) ?u st'))"
        by (simp add: sleeps_def next_backoff_def Let_def split: prod.splits)
      also have "\<dots> = b # map (\<lambda>k. (next_backoff ^^ k) (next_backoff b)) [0..<n]"
        by (simp only: s)
      also have "\<dots> = map (\<lambda>k. (next_backoff ^^ k) b) [0..<Suc n]"
        by (simp only: upt_0_Suc_shift) (simp add: comp_def funpow_swap1)
      finally show ?thesis using n by (metis Suc_le_mono)
    qed
  qed
qed

lemma next_backoff_closed_form: "(next_backoff ^^ k) (1 / 5) = min (2 ^ k / 5) 5"
proof (induction k)
  case 0
  show ?case by simp
next
  case (Suc k)
  have "(next_backoff ^^ Suc k) (1 / 5) = next_backoff (min (2 ^ k / 5) 5)"
    by (simp add: Suc)
  also have "\<dots> = min (2 ^ Suc k / 5) 5"
    by (simp add: next_backoff_def min_def)
  finally show ?case .
qed

lemma backoff_mono: "min (2 ^ j / 5) (5 :: rat) \<le> min (2 ^ k / 5) 5" if "j \<le> k"
proof -
  from that have "(2 :: rat) ^ j \<le> 2 ^ k" by (simp add: power_increasing)
  then have "(2 :: rat) ^ j / 5 \<le> 2 ^ k / 5" by (simp add: divide_right_mono)
  then show ?thesis by (rule min.mono) simp
qed

lemma retry_loop_none_processed:
  assumes "none_processed dynamodb" and "0 < unprocessed_count req"
  shows "\<exists>st'. retry_loop dynamodb m a b req st =
           (concat (map (\<lambda>k. [BatchWriteItem req, Warn (unprocessed_count req) (a + k + 1),
                                Sleep ((next_backoff ^^ k) b)]) [0..<m]), None, st')"
proof (induction m arbitrary: a b st)
  case 0
  show ?case by simp
next
  case (Suc m)
  from assms(1) obtain st1 where d: "dynamodb st req = Inr (Some req, st1)"
    unfolding none_processed_def by blast
  from Suc.IH [of "a + 1" "next_backoff b" st1] obtain st2 where
    r: "retry_loop dynamodb m (a + 1) (next_backoff b) req st1 =
           (concat (map (\<lambda>k. [BatchWriteItem req, Warn (unprocessed_count req) (a + 1 + k + 1),
                                Sleep ((next_backoff ^^ k) (next_backoff b))]) [0..<m]), None, st2)"
    by blast
  have "retry_loop dynamodb (Suc m) a b req st =
          (BatchWriteItem req # Warn (unprocessed_count req) (a + 1) # Sleep b
             # concat (map (\<lambda>k. [BatchWriteItem req, Warn (unprocessed_count req) (a + 1 + k + 1),
                                Sleep ((next_backoff ^^ k) (next_backoff b))]) [0..<m]), None, st2)"
    using d assms(2) r by (simp add: next_backoff_def)
  also have "BatchWriteItem req # Warn (unprocessed_count req) (a + 1) # Sleep b
             # concat (map (\<lambda>k. [BatchWriteItem req, Warn (unprocessed_count req) (a + 1 + k + 1),
                                Sleep ((next_backoff ^^ k) (next_backoff b))]) [0..<m])
           = concat (map (\<lambda>k. [BatchWriteItem req, Warn (unprocessed_count req) (a + k + 1),
                                Sleep ((next_backoff ^^ k) b)]) [0..<Suc m])"
    by (simp only: upt_0_Suc_shift) (simp add: comp_def funpow_swap1)
  finally show ?case by blast
qed

lemma sleeps_attempts:
  "sleeps (concat (map (\<lambda>k. [BatchWriteItem r, Warn c (f k), Sleep (g k)]) ks)) = map g ks"
  by (induction ks) (simp_all add: sleeps_def)

lemma calls_attempts:
  "calls (concat (map (\<lambda>k. [BatchWriteItem r, Warn c (f k), Sleep (g k)]) ks)) = replicate (length ks) r"
  by (induction ks) (simp_all add: calls_def)

lemma none_processed_rejecting: "none_processed (\<lambda>st req. Inr (Some req, Suc st))"
  by (simp add: none_processed_def)

lemma eval_sleeps:
  "sleeps (fst (retry_loop (\<lambda>st req. Inr (Some req, Suc st)) 7 0 (1 / 5)
                  [(''t'', [PNone :: (int, unit) pyval])] (0 :: nat)))
   = [1 / 5, 2 / 5, 4 / 5, 8 / 5, 16 / 5, 5, 5]"
  by code_simp

lemma retry_loop_calls_chain:
  "length (calls (fst (retry_loop dynamodb m a b req st))) \<le> m
   \<and> (0 < m \<longrightarrow> calls (fst (retry_loop dynamodb m a b req st)) \<noteq> []
                \<and> calls (fst (retry_loop dynamodb m a b req st)) ! 0 = req)
   \<and> (\<forall>k. Suc k < length (calls (fst (retry_loop dynamodb m a b req st))) \<longrightarrow>
          (\<exists>s s'. dynamodb s (calls (fst (retry_loop dynamodb m a b req st)) ! k)
                     = Inr (Some (calls (fst (retry_loop dynamodb m a b req st)) ! Suc k), s')))"
proof (induction m arbitrary: a b req st)
  case 0
  show ?case by (simp add: calls_def)
next
  case (Suc m)
  show ?case
  proof (cases "dynamodb st req")
    case (Inl e)
    then have "calls (fst (retry_loop dynamodb (Suc m) a b req st)) = [req]"
      by (simp add: calls_def)
    then show ?thesis by simp
  next
    case (Inr p)
    obtain resp st' where p: "p = (resp, st')" by (cases p)
    let ?u = "case resp of None \<Rightarrow> [] | Some u \<Rightarrow> u"
    show ?thesis
    proof (cases "unprocessed_count ?u = 0")
      case True
      with Inr p have "calls (fst (retry_loop dynamodb (Suc m) a b req st)) = [req]"
        by (simp add: calls_def)
      then show ?thesis by simp
    next
      case False
      let ?cs = "calls (fst (retry_loop dynamodb m (a + 1) (min (b * 2) 5) ?u st'))"
      from False have resp: "resp = Some ?u"
        by (cases resp) (simp_all add: unprocessed_count_def)
      from Inr p False have cs: "calls (fst (retry_loop dynamodb (Suc m) a b req st)) = req # ?cs"
        by (simp add: calls_def Let_def split: prod.splits)
      note IH = Suc.IH [of "a + 1" "min (b * 2) 5" ?u st']
      have chain: "\<exists>s s'. dynamodb s ((req # ?cs) ! k) = Inr (Some ((req # ?cs) ! Suc k), s')"
        if k: "Suc k < length (req # ?cs)" for k
      proof (cases k)
        case 0
        with k have ne: "?cs \<noteq> []" by auto
        with IH have "0 < m" by (cases m) auto
        with IH have "?cs ! 0 = ?u" by blast
        with Inr p resp 0 show ?thesis by (metis nth_Cons_0 nth_Cons_Suc)
      next
        case (Suc k')
        with k have "Suc k' < length ?cs" by simp
        with IH obtain s s' where "dynamodb s (?cs ! k') = Inr (Some (?cs ! Suc k'), s')" by blast
        with Suc show ?thesis by auto
      qed
      from IH have "length (req # ?cs) \<le> Suc m" by simp
      with chain show ?thesis by (simp only: cs) auto
    qed
  qed
qed

text \<open>
  Claim C8 (backoff). In the retry loop of one chunk (any client, any request, any
  number of attempts \<open>m\<close>) the sleeps are the first \<open>n \<le> m\<close> terms of
  \<open>0.2, 0.4, 0.8, 1.6, 3.2, 5, 5, \<dots>\<close>: the first is \<open>1/5\<close>, each next one is the
  double of the one before capped at 5, the sequence is non-decreasing and no sleep
  exceeds 5. When the client returns every request as unprocessed, all \<open>m\<close> sleeps
  happen.
\<close>

theorem retry_backoff_sequence:
  "\<exists>n \<le> m. sleeps (fst (retry_loop dynamodb m 0 (1 / 5) req st)) = map (\<lambda>k. min (2 ^ k / 5) 5) [0..<n]
     \<and> (\<forall>k < n. sleeps (fst (retry_loop dynamodb m 0 (1 / 5) req st)) ! k \<le> 5)
     \<and> (0 < n \<longrightarrow> sleeps (fst (retry_loop dynamodb m 0 (1 / 5) req st)) ! 0 = 1 / 5)
     \<and> (\<forall>k. Suc k < n \<longrightarrow>
            sleeps (fst (retry_loop dynamodb m 0 (1 / 5) req st)) ! Suc k
            = min (2 * sleeps (fst (retry_loop dynamodb m 0 (1 / 5) req st)) ! k) 5)
     \<and> sorted (sleeps (fst (retry_loop dynamodb m 0 (1 / 5) req st)))
     \<and> (none_processed dynamodb \<and> 0 < unprocessed_count req \<longrightarrow> n = m)"
proof -
  let ?ds = "sleeps (fst (retry_loop dynamodb m 0 (1 / 5) req st))"
  from sleeps_retry_loop [of m dynamodb 0 "1 / 5" req st] obtain n where
    n: "n \<le> m" and "?ds = map (\<lambda>k. (next_backoff ^^ k) (1 / 5)) [0..<n]"
    by blast
  then have ds: "?ds = map (\<lambda>k. min (2 ^ k / 5) 5) [0..<n]"
    by (simp only: next_backoff_closed_form)
  have nth: "?ds ! k = min (2 ^ k / 5) 5" if "k < n" for k
    using that by (simp add: ds)
  have len: "length ?ds = n" by (simp add: ds)
  have cap: "\<forall>k < n. ?ds ! k \<le> 5" by (simp add: nth)
  have first: "0 < n \<longrightarrow> ?ds ! 0 = 1 / 5" by (simp add: nth)
  have step: "\<forall>k. Suc k < n \<longrightarrow> ?ds ! Suc k = min (2 * ?ds ! k) 5"
  proof (intro allI impI)
    fix k assume k: "Suc k < n"
    then have "?ds ! Suc k = min (2 ^ Suc k / 5) 5" "?ds ! k = min (2 ^ k / 5) 5"
      by (simp_all only: nth Suc_lessD)
    then show "?ds ! Suc k = min (2 * ?ds ! k) 5" by (simp add: min_def)
  qed
  have srt: "sorted ?ds"
    unfolding sorted_iff_nth_mono
  proof (intro allI impI)
    fix i j assume "i \<le> j" "j < length ?ds"
    with len have "i < n" "j < n" by simp_all
    with \<open>i \<le> j\<close> show "?ds ! i \<le> ?ds ! j" by (simp only: nth backoff_mono)
  qed
  have full: "none_processed dynamodb \<and> 0 < unprocessed_count req \<longrightarrow> n = m"
  proof
    assume a: "none_processed dynamodb \<and> 0 < unprocessed_count req"
    then obtain st' where
      "retry_loop dynamodb m 0 (1 / 5) req st =
           (concat (map (\<lambda>k. [BatchWriteItem req, Warn (unprocessed_count req) (0 + k + 1),
                                Sleep ((next_backoff ^^ k) (1 / 5))]) [0..<m]), None, st')"
      using retry_loop_none_processed [of dynamodb req m 0 "1 / 5" st] by blast
    then have "length ?ds = m" by (simp add: sleeps_attempts)
    with len show "n = m" by simp
  qed
  from n ds cap first step srt full show ?thesis by blast
qed

theorem retry_backoff_sequence_witness:
  "none_processed (\<lambda>(st :: nat) (req :: (int, unit) request_items). Inr (Some req, Suc st))
   \<and> 0 < unprocessed_count [(''t'', [PNone :: (int, unit) pyval])]
   \<and> sleeps (fst (retry_loop (\<lambda>st req. Inr (Some req, Suc st)) 7 0 (1 / 5)
                  [(''t'', [PNone :: (int, unit) pyval])] (0 :: nat)))
      = [1 / 5, 2 / 5, 4 / 5, 8 / 5, 16 / 5, 5, 5]
   \<and> length (sleeps (fst (retry_loop (\<lambda>st req. Inr (Some req, Suc st)) 7 0 (1 / 5)
                  [(''t'', [PNone :: (int, unit) pyval])] (0 :: nat)))) = 7
   \<and> sorted [1 / 5, 2 / 5, 4 / 5, 8 / 5, 16 / 5, 5, 5 :: rat]"
proof -
  let ?dyn = "\<lambda>(st :: nat) (req :: (int, unit) request_items). Inr (Some req, Suc st) :: py_error + _"
  let ?req = "[(''t'', [PNone :: (int, unit) pyval])]"
  have cnt: "0 < unprocessed_count ?req" by (simp add: unprocessed_count_def)
  from retry_backoff_sequence [of 7 ?dyn ?req 0] obtain n where
    ds: "sleeps (fst (retry_loop ?dyn 7 0 (1 / 5) ?req 0)) = map (\<lambda>k. min (2 ^ k / 5) 5) [0..<n]"
    and srt: "sorted (sleeps (fst (retry_loop ?dyn 7 0 (1 / 5) ?req 0)))"
    and full: "none_processed ?dyn \<and> 0 < unprocessed_count ?req \<longrightarrow> n = 7"
    by blast
  from full none_processed_rejecting cnt have "n = 7" by blast
  with ds have len: "length (sleeps (fst (retry_loop ?dyn 7 0 (1 / 5) ?req 0))) = 7" by simp
  from srt have srt': "sorted [1 / 5, 2 / 5, 4 / 5, 8 / 5, 16 / 5, 5, 5 :: rat]"
    by (simp only: eval_sleeps)
  show ?thesis
    by (intro conjI) (rule none_processed_rejecting cnt eval_sleeps len srt')+
qed

lemma calls_append: "calls (xs @ ys) = calls xs @ calls ys"
  by (simp add: calls_def)

lemma calls_Info: "calls (Info j n l # evs) = calls evs"
  by (simp add: calls_def)

lemma map_zip_second:
  "length js = length cs \<Longrightarrow> map (\<lambda>(j, c). f c) (zip js cs) = map f cs"
  by (induction js cs rule: list_induct2) auto

lemma unprocessed_count_request:
  "unprocessed_count [(table_name, map f chunk)] = length chunk"
  by (simp add: unprocessed_count_def)

lemma retry_loop_exhausted:
  assumes "none_processed dynamodb" and "chunk \<noteq> []"
  shows "\<exists>st'. retry_loop dynamodb m 0 (1 / 5) [(table_name, map (put_request B) chunk)] st =
           (concat (map (\<lambda>k. [BatchWriteItem [(table_name, map (put_request B) chunk)],
                                Warn (length chunk) (k + 1), Sleep (min (2 ^ k / 5) 5)]) [0..<m]), None, st')"
proof -
  let ?req = "[(table_name, map (put_request B) chunk)]"
  from assms(2) have "0 < unprocessed_count ?req" by (simp add: unprocessed_count_request)
  from retry_loop_none_processed [OF assms(1) this, of m 0 "1 / 5" st]
  show ?thesis by (simp add: unprocessed_count_request next_backoff_closed_form)
qed

lemma write_chunks_exhausted:
  assumes "none_processed dynamodb" and "\<forall>chunk \<in> set chunks. chunk \<noteq> []"
  shows "\<exists>st'. write_chunks B dynamodb table_name max_retries n i chunks st =
           (concat (map (\<lambda>(j, chunk).
                      concat (map (\<lambda>k. [BatchWriteItem [(table_name, map (put_request B) chunk)],
                                           Warn (length chunk) (k + 1), Sleep (min (2 ^ k / 5) 5)])
                                  [0..<nat max_retries])
                      @ [Info j n (length chunk)])
                    (zip [i..<i + length chunks] chunks)), None, st')"
  using assms(2)
proof (induction chunks arbitrary: i st)
  case Nil
  show ?case by simp
next
  case (Cons chunk rest)
  then have ne: "chunk \<noteq> []" and rest: "\<forall>chunk \<in> set rest. chunk \<noteq> []" by simp_all
  from retry_loop_exhausted [OF assms(1) ne, of "nat max_retries" table_name B st]
  obtain st1 where r: "retry_loop dynamodb (nat max_retries) 0 (1 / 5)
                         [(table_name, map (put_request B) chunk)] st
                       = (concat (map (\<lambda>k. [BatchWriteItem [(table_name, map (put_request B) chunk)],
                                Warn (length chunk) (k + 1), Sleep (min (2 ^ k / 5) 5)]) [0..<nat max_retries]),
                          None, st1)"
    by blast
  from Cons.IH [OF rest, of "i + 1" st1] obtain st2 where
    w: "write_chunks B dynamodb table_name max_retries n (i + 1) rest st1 =
           (concat (map (\<lambda>(j, chunk).
                      concat (map (\<lambda>k. [BatchWriteItem [(table_name, map (put_request B) chunk)],
                                           Warn (length chunk) (k + 1), Sleep (min (2 ^ k / 5) 5)])
                                  [0..<nat max_retries])
                      @ [Info j n (length chunk)])
                    (zip [i + 1..<i + 1 + length rest] rest)), None, st2)"
    by blast
  have "[i..<i + length (chunk # rest)] = i # [i + 1..<i + 1 + length rest]"
    by (subst upt_rec) simp
  with r w show ?case by simp
qed

lemma calls_exhausted_trace:
  "calls (concat (map (\<lambda>(j, chunk).
                      concat (map (\<lambda>k. [BatchWriteItem (req chunk), Warn (length chunk) (k + 1), Sleep (g k)])
                                  [0..<m])
                      @ [Info j n (length chunk)]) jcs))
   = concat (map (\<lambda>(j, chunk). replicate m (req chunk)) jcs)"
proof (induction jcs)
  case Nil
  show ?case by (simp add: calls_def)
next
  case (Cons jc jcs)
  obtain j chunk where jc: "jc = (j, chunk)" by (cases jc)
  from Cons show ?case by (simp add: jc calls_append calls_attempts calls_Info)
qed

lemma chunks_of_nonempty:
  assumes "0 < C" and "chunks_of records C = Inr chunks"
  shows "\<forall>chunk \<in> set chunks. chunk \<noteq> []"
proof
  fix chunk assume "chunk \<in> set chunks"
  with assms chunks_of_pos [OF assms(1), of records]
  obtain k where k: "k < (length records + nat C - 1) div nat C"
    and ch: "chunk = take (nat C) (drop (k * nat C) records)" by auto
  from assms(1) have c: "0 < nat C" by simp
  from ceil_div_index [OF c k] have "k * nat C < length records" .
  with c ch show "chunk \<noteq> []" by auto
qed

lemma eval_write_none_processed:
  "snd (batch_write_items halves (\<lambda>st req. Inr (Some req, Suc st)) ''t''
          [[(''summarize_job_name'', PStr ''a'')], [(''summarize_job_name'', PStr ''b'')],
           [(''summarize_job_name'', PStr ''c'')]] 2 3 (0 :: nat))
   = (None, 6)"
  by code_simp

text \<open>
  Claim C2 (retry termination, silent partial success). When the client returns every
  request whole as unprocessed, and \<open>max_retries \<ge> 1\<close>, \<open>batch_size \<ge> 1\<close>,
  \<^verbatim>\<open>batch_write_items\<close> does not raise; for each chunk in order it issues exactly
  \<open>max_retries\<close> calls, each with the request the previous response returned (here the
  chunk's whole request), warns and sleeps after each, then logs the chunk as written
  and goes on to the next chunk. For any client and any number of attempts \<open>m\<close>, a
  chunk's loop makes at most \<open>m\<close> calls, and each call after the first submits exactly
  the unprocessed items of the response before it.
\<close>

theorem retry_exhaustion:
  "(none_processed dynamodb \<and> 1 \<le> max_retries \<and> 1 \<le> batch_size \<longrightarrow>
      (\<exists>chunks st'.
          chunks_of records batch_size = Inr chunks
          \<and> batch_write_items B dynamodb table_name records batch_size max_retries st
              = (concat (map (\<lambda>(j, chunk).
                          concat (map (\<lambda>k. [BatchWriteItem [(table_name, map (put_request B) chunk)],
                                               Warn (length chunk) (k + 1), Sleep (min (2 ^ k / 5) 5)])
                                      [0..<nat max_retries])
                          @ [Info j (length chunks) (length chunk)])
                        (zip [1..<1 + length chunks] chunks)), None, st')
          \<and> calls (fst (batch_write_items B dynamodb table_name records batch_size max_retries st))
              = concat (map (\<lambda>chunk. replicate (nat max_retries) [(table_name, map (put_request B) chunk)])
                            chunks)))
   \<and> (none_processed dynamodb \<and> chunk \<noteq> [] \<longrightarrow>
        calls (fst (retry_loop dynamodb m 0 (1 / 5) [(table_name, map (put_request B) chunk)] st))
          = replicate m [(table_name, map (put_request B) chunk)]
        \<and> fst (snd (retry_loop dynamodb m 0 (1 / 5) [(table_name, map (put_request B) chunk)] st)) = None)
   \<and> length (calls (fst (retry_loop dynamodb m a b req st))) \<le> m
   \<and> (\<forall>k. Suc k < length (calls (fst (retry_loop dynamodb m a b req st))) \<longrightarrow>
          (\<exists>s s'. dynamodb s (calls (fst (retry_loop dynamodb m a b req st)) ! k)
                     = Inr (Some (calls (fst (retry_loop dynamodb m a b req st)) ! Suc k), s')))"
proof (intro conjI impI)
  assume a: "none_processed dynamodb \<and> 1 \<le> max_retries \<and> 1 \<le> batch_size"
  then have np: "none_processed dynamodb" and bs: "0 < batch_size" by simp_all
  let ?chunks = "map (\<lambda>k. take (nat batch_size) (drop (k * nat batch_size) records))
                     [0..<(length records + nat batch_size - 1) div nat batch_size]"
  have eq: "chunks_of records batch_size = Inr ?chunks" by (rule chunks_of_pos [OF bs])
  from chunks_of_nonempty [OF bs eq] have ne: "\<forall>chunk \<in> set ?chunks. chunk \<noteq> []" .
  from write_chunks_exhausted [OF np ne, of B table_name max_retries "length ?chunks" 1 st]
  obtain st' where w: "write_chunks B dynamodb table_name max_retries (length ?chunks) 1 ?chunks st =
           (concat (map (\<lambda>(j, chunk).
                      concat (map (\<lambda>k. [BatchWriteItem [(table_name, map (put_request B) chunk)],
                                           Warn (length chunk) (k + 1), Sleep (min (2 ^ k / 5) 5)])
                                  [0..<nat max_retries])
                      @ [Info j (length ?chunks) (length chunk)])
                    (zip [1..<1 + length ?chunks] ?chunks)), None, st')"
    by blast
  have bw: "batch_write_items B dynamodb table_name records batch_size max_retries st
              = write_chunks B dynamodb table_name max_retries (length ?chunks) 1 ?chunks st"
    by (simp only: batch_write_items_def eq sum.case)
  have zipped: "map (\<lambda>(j, chunk). replicate (nat max_retries) [(table_name, map (put_request B) chunk)])
                  (zip [1..<1 + length ?chunks] ?chunks)
                = map (\<lambda>chunk. replicate (nat max_retries) [(table_name, map (put_request B) chunk)]) ?chunks"
    by (rule map_zip_second) (simp only: length_upt length_map add_diff_cancel_left')
  have c: "calls (fst (batch_write_items B dynamodb table_name records batch_size max_retries st))
             = concat (map (\<lambda>chunk. replicate (nat max_retries) [(table_name, map (put_request B) chunk)])
                           ?chunks)"
    by (simp only: bw w fst_conv
          calls_exhausted_trace [where req = "\<lambda>chunk. [(table_name, map (put_request B) chunk)]"] zipped)
  from eq w c show "\<exists>chunks st'.
          chunks_of records batch_size = Inr chunks
          \<and> batch_write_items B dynamodb table_name records batch_size max_retries st
              = (concat (map (\<lambda>(j, chunk).
                          concat (map (\<lambda>k. [BatchWriteItem [(table_name, map (put_request B) chunk)],
                                               Warn (length chunk) (k + 1), Sleep (min (2 ^ k / 5) 5)])
                                      [0..<nat max_retries])
                          @ [Info j (length chunks) (length chunk)])
                        (zip [1..<1 + length chunks] chunks)), None, st')
          \<and> calls (fst (batch_write_items B dynamodb table_name records batch_size max_retries st))
              = concat (map (\<lambda>chunk. replicate (nat max_retries) [(table_name, map (put_request B) chunk)])
                            chunks)"
    by (simp only: bw) blast
next
  assume a: "none_processed dynamodb \<and> chunk \<noteq> []"
  from retry_loop_exhausted [of dynamodb chunk m table_name B st] a
  obtain st' where r: "retry_loop dynamodb m 0 (1 / 5) [(table_name, map (put_request B) chunk)] st =
           (concat (map (\<lambda>k. [BatchWriteItem [(table_name, map (put_request B) chunk)],
                                Warn (length chunk) (k + 1), Sleep (min (2 ^ k / 5) 5)]) [0..<m]), None, st')"
    by blast
  then show "calls (fst (retry_loop dynamodb m 0 (1 / 5) [(table_name, map (put_request B) chunk)] st))
          = replicate m [(table_name, map (put_request B) chunk)]"
    by (simp add: calls_attempts)
  from r show "fst (snd (retry_loop dynamodb m 0 (1 / 5) [(table_name, map (put_request B) chunk)] st)) = None"
    by simp
next
  show "length (calls (fst (retry_loop dynamodb m a b req st))) \<le> m"
    using retry_loop_calls_chain [of dynamodb m a b req st] by blast
next
  show "\<forall>k. Suc k < length (calls (fst (retry_loop dynamodb m a b req st))) \<longrightarrow>
          (\<exists>s s'. dynamodb s (calls (fst (retry_loop dynamodb m a b req st)) ! k)
                     = Inr (Some (calls (fst (retry_loop dynamodb m a b req st)) ! Suc k), s'))"
    using retry_loop_calls_chain [of dynamodb m a b req st] by blast
qed

theorem retry_exhaustion_witness:
  "none_processed (\<lambda>(st :: nat) (req :: (int, unit) request_items). Inr (Some req, Suc st))
   \<and> (1 :: int) \<le> 3 \<and> (1 :: int) \<le> 2
   \<and> calls (fst (batch_write_items halves (\<lambda>st req. Inr (Some req, Suc st)) ''t''
          [[(''summarize_job_name'', PStr ''a'')], [(''summarize_job_name'', PStr ''b'')],
           [(''summarize_job_name'', PStr ''c'')]] 2 3 (0 :: nat)))
      = [[(''t'', [put_request halves [(''summarize_job_name'', PStr ''a'')],
                   put_request halves [(''summarize_job_name'', PStr ''b'')]])],
         [(''t'', [put_request halves [(''summarize_job_name'', PStr ''a'')],
                   put_request halves [(''summarize_job_name'', PStr ''b'')]])],
         [(''t'', [put_request halves [(''summarize_job_name'', PStr ''a'')],
                   put_request halves [(''summarize_job_name'', PStr ''b'')]])],
         [(''t'', [put_request halves [(''summarize_job_name'', PStr ''c'')]])],
         [(''t'', [put_request halves [(''summarize_job_name'', PStr ''c'')]])],
         [(''t'', [put_request halves [(''summarize_job_name'', PStr ''c'')]])]]
   \<and> snd (batch_write_items halves (\<lambda>st req. Inr (Some req, Suc st)) ''t''
          [[(''summarize_job_name'', PStr ''a'')], [(''summarize_job_name'', PStr ''b'')],
           [(''summarize_job_name'', PStr ''c'')]] 2 3 (0 :: nat))
      = (None, 6)"
proof -
  let ?dyn = "\<lambda>(st :: nat) (req :: (int, unit) request_items). Inr (Some req, Suc st) :: py_error + _"
  let ?records = "[[(''summarize_job_name'', PStr ''a'')], [(''summarize_job_name'', PStr ''b'')],
                   [(''summarize_job_name'', PStr ''c'')]] :: (string \<times> (int, unit) pyval) list list"
  have h: "none_processed ?dyn \<and> (1 :: int) \<le> 3 \<and> (1 :: int) \<le> 2"
    using none_processed_rejecting by simp
  from retry_exhaustion [of ?dyn 3 2 ?records halves "''t''" 0] h
  obtain chunks where
    c: "chunks_of ?records 2 = Inr chunks"
    and cs: "calls (fst (batch_write_items halves ?dyn ''t'' ?records 2 3 0))
              = concat (map (\<lambda>chunk. replicate (nat 3) [(''t'', map (put_request halves) chunk)]) chunks)"
    by blast
  from c eval_chunks have
    "chunks = [[[(''summarize_job_name'', PStr ''a'')], [(''summarize_job_name'', PStr ''b'')]],
               [[(''summarize_job_name'', PStr ''c'')]]]"
    by auto
  with cs have calls3: "calls (fst (batch_write_items halves ?dyn ''t'' ?records 2 3 0))
      = [[(''t'', [put_request halves [(''summarize_job_name'', PStr ''a'')],
                   put_request halves [(''summarize_job_name'', PStr ''b'')]])],
         [(''t'', [put_request halves [(''summarize_job_name'', PStr ''a'')],
                   put_request halves [(''summarize_job_name'', PStr ''b'')]])],
         [(''t'', [put_request halves [(''summarize_job_name'', PStr ''a'')],
                   put_request halves [(''summarize_job_name'', PStr ''b'')]])],
         [(''t'', [put_request halves [(''summarize_job_name'', PStr ''c'')]])],
         [(''t'', [put_request halves [(''summarize_job_name'', PStr ''c'')]])],
         [(''t'', [put_request halves [(''summarize_job_name'', PStr ''c'')]])]]"
    by (simp add: numeral_3_eq_3)
  have one3: "(1 :: int) \<le> 3" and one2: "(1 :: int) \<le> 2" by simp_all
  show ?thesis
    by (intro conjI) (rule none_processed_rejecting one3 one2 calls3 eval_write_none_processed)+
qed

section \<open>Claims about the records that \<^verbatim>\<open>main\<close> writes\<close>

lemma has_pk_iff: "has_pk r \<longleftrightarrow> (\<exists>v. map_of r ''summarize_job_name'' = Some v)"
  unfolding has_pk_def using map_of_eq_None_iff [of r "''summarize_job_name''"]
  by (cases "map_of r ''summarize_job_name''") auto

lemma has_pk_keys: "has_pk = (\<lambda>r. ''summarize_job_name'' \<in> set (map fst r))"
  by (simp add: fun_eq_iff has_pk_def)

lemma coerce_patient_id_keys: "map fst (coerce_patient_id B r) = map fst r"
proof (cases "map_of r ''patient_id''")
  case None
  then show ?thesis by (simp add: coerce_patient_id_def)
next
  case (Some v)
  then have "''patient_id'' \<in> set (map fst r)"
    by (metis map_of_eq_None_iff option.distinct(1) set_map)
  with Some show ?thesis by (simp add: coerce_patient_id_def AList.update_keys)
qed

lemma coerce_patient_id_other:
  "k \<noteq> ''patient_id'' \<Longrightarrow> map_of (coerce_patient_id B r) k = map_of r k"
  by (simp add: coerce_patient_id_def AList.update_conv' split: option.splits)

lemma coerce_patient_id_coerced:
  "map_of r ''patient_id'' = Some v \<Longrightarrow> \<not> isinstance_str v
   \<Longrightarrow> map_of (coerce_patient_id B r) ''patient_id'' = Some (PStr (py_str B v))"
  by (simp add: coerce_patient_id_def AList.update_conv')

lemma coerce_patient_id_unchanged:
  "map_of r ''patient_id'' = None \<or> (\<exists>s. map_of r ''patient_id'' = Some (PStr s))
   \<Longrightarrow> coerce_patient_id B r = r"
  by (auto simp: coerce_patient_id_def)

lemma eval_prepare:
  "prepare_records halves
     [[(''summarize_job_name'', PStr ''job-1''), (''patient_id'', PInt 42)],
      [(''note'', PStr ''x'')],
      [(''summarize_job_name'', PStr ''job-2'')]]
   = [[(''summarize_job_name'', PStr ''job-1''), (''patient_id'', PStr ''42'')],
      [(''summarize_job_name'', PStr ''job-2'')]]"
  by code_simp

lemma eval_coerce:
  "map_of [(''summarize_job_name'', PStr ''job-1''), (''patient_id'', PInt 42 :: (int, unit) pyval)] ''patient_id''
     = Some (PInt 42)"
  "\<not> isinstance_str (PInt 42 :: (int, unit) pyval)"
  "py_str halves (PInt 42) = ''42''"
  "map_of [(''summarize_job_name'', PStr ''job-2'' :: (int, unit) pyval)] ''patient_id'' = None"
  by code_simp+

text \<open>
  Claim C9 (pre-write filter and coercion). From the normalized records \<^verbatim>\<open>main\<close> keeps,
  in order, exactly those that have the key \<^verbatim>\<open>"summarize_job_name"\<close>: of
  \<^verbatim>\<open>[{"patient_id": "p1"}, {"summarize_job_name": "job-3"}]\<close> only the second is left. A
  kept record keeps its keys and every value but the one under \<^verbatim>\<open>"patient_id"\<close>; that
  value, when present and not a str, is replaced by \<^verbatim>\<open>str\<close> of it; a record without
  \<^verbatim>\<open>"patient_id"\<close>, or with a str there, is unchanged.
\<close>

theorem prepare_records_filter_and_coerce:
  "prepare_records B records = map (coerce_patient_id B) (filter has_pk records)
   \<and> (has_pk r \<longleftrightarrow> (\<exists>v. map_of r ''summarize_job_name'' = Some v))
   \<and> map (map fst) (prepare_records B records)
       = filter (\<lambda>ks. ''summarize_job_name'' \<in> set ks) (map (map fst) records)
   \<and> prepare_records B [[(''patient_id'', PStr ''p1'')], [(''summarize_job_name'', PStr ''job-3'')]]
       = [[(''summarize_job_name'', PStr ''job-3'')]]
   \<and> map fst (coerce_patient_id B r) = map fst r
   \<and> (\<forall>k. k \<noteq> ''patient_id'' \<longrightarrow> map_of (coerce_patient_id B r) k = map_of r k)
   \<and> (map_of r ''patient_id'' = Some v \<and> \<not> isinstance_str v \<longrightarrow>
        map_of (coerce_patient_id B r) ''patient_id'' = Some (PStr (py_str B v)))
   \<and> (map_of r ''patient_id'' = None \<or> (\<exists>s. map_of r ''patient_id'' = Some (PStr s)) \<longrightarrow>
        coerce_patient_id B r = r)"
proof (intro conjI allI impI)
  show "prepare_records B records = map (coerce_patient_id B) (filter has_pk records)"
    by (simp add: prepare_records_def)
  show "has_pk r \<longleftrightarrow> (\<exists>v. map_of r ''summarize_job_name'' = Some v)"
    by (rule has_pk_iff)
  show "map (map fst) (prepare_records B records)
       = filter (\<lambda>ks. ''summarize_job_name'' \<in> set ks) (map (map fst) records)"
    by (simp add: prepare_records_def coerce_patient_id_keys comp_def filter_map has_pk_keys)
  show "prepare_records B [[(''patient_id'', PStr ''p1'')], [(''summarize_job_name'', PStr ''job-3'')]]
       = [[(''summarize_job_name'', PStr ''job-3'')]]"
    by (simp add: prepare_records_def has_pk_def coerce_patient_id_def)
  show "map fst (coerce_patient_id B r) = map fst r"
    by (rule coerce_patient_id_keys)
next
  fix k :: string assume "k \<noteq> ''patient_id''"
  then show "map_of (coerce_patient_id B r) k = map_of r k" by (rule coerce_patient_id_other)
next
  assume "map_of r ''patient_id'' = Some v \<and> \<not> isinstance_str v"
  then show "map_of (coerce_patient_id B r) ''patient_id'' = Some (PStr (py_str B v))"
    by (simp add: coerce_patient_id_coerced)
next
  assume "map_of r ''patient_id'' = None \<or> (\<exists>s. map_of r ''patient_id'' = Some (PStr s))"
  then show "coerce_patient_id B r = r" by (rule coerce_patient_id_unchanged)
qed

theorem prepare_records_filter_and_coerce_witness:
  "prepare_records halves
     [[(''summarize_job_name'', PStr ''job-1''), (''patient_id'', PInt 42)],
      [(''note'', PStr ''x'')],
      [(''summarize_job_name'', PStr ''job-2'')]]
   = [[(''summarize_job_name'', PStr ''job-1''), (''patient_id'', PStr ''42'')],
      [(''summarize_job_name'', PStr ''job-2'')]]
   \<and> map_of [(''summarize_job_name'', PStr ''job-1''), (''patient_id'', PInt 42 :: (int, unit) pyval)] ''patient_id''
       = Some (PInt 42)
   \<and> \<not> isinstance_str (PInt 42 :: (int, unit) pyval)
   \<and> map_of (coerce_patient_id halves [(''summarize_job_name'', PStr ''job-1''), (''patient_id'', PInt 42)])
         ''patient_id'' = Some (PStr ''42'')
   \<and> map_of [(''summarize_job_name'', PStr ''job-2'' :: (int, unit) pyval)] ''patient_id'' = None
   \<and> coerce_patient_id halves [(''summarize_job_name'', PStr ''job-2'')]
       = [(''summarize_job_name'', PStr ''job-2'')]"
proof -
  let ?r1 = "[(''summarize_job_name'', PStr ''job-1''), (''patient_id'', PInt 42)] :: (string \<times> (int, unit) pyval) list"
  let ?r2 = "[(''summarize_job_name'', PStr ''job-2'')] :: (string \<times> (int, unit) pyval) list"
  from prepare_records_filter_and_coerce [of halves "[]" ?r1 "PInt 42"] eval_coerce(1,2)
  have "map_of (coerce_patient_id halves ?r1) ''patient_id'' = Some (PStr (py_str halves (PInt 42)))"
    by blast
  then have c1: "map_of (coerce_patient_id halves ?r1) ''patient_id'' = Some (PStr ''42'')"
    by (simp only: eval_coerce(3))
  from prepare_records_filter_and_coerce [of halves "[]" ?r2 PNone] eval_coerce(4)
  have c2: "coerce_patient_id halves ?r2 = ?r2" by blast
  show ?thesis
    by (intro conjI) (rule eval_prepare eval_coerce(1) eval_coerce(2) c1 eval_coerce(4) c2)+
qed

end
